theory Spec2Isabelle
  imports Complex_Main "HOL-Library.Word"
begin

section \<open>JavaScript values\<close>

text \<open>
  Values that reach the handlers through \<^verbatim>\<open>req.body\<close> and \<^verbatim>\<open>req.query\<close>
  (parsed by \<^verbatim>\<open>express.urlencoded({extended: true})\<close> and \<^verbatim>\<open>express.json()\<close>) and
  values sent back with \<^verbatim>\<open>res.json\<close>. A finite number is carried by its exact
  rational value; an object by its properties in insertion order.
\<close>

datatype jsval =
    JUndefined
  | JNull
  | JBool bool
  | JNum rat
  | JStr string
  | JArr "jsval list"
  | JObj "(string \<times> jsval) list"

text \<open>ToBoolean, as used by \<^verbatim>\<open>!option\<close> and by \<^verbatim>\<open>req.query.deleted ? ... : ...\<close>.\<close>

fun truthy :: "jsval \<Rightarrow> bool" where
  "truthy JUndefined = False"
| "truthy JNull = False"
| "truthy (JBool b) = b"
| "truthy (JNum r) = (r \<noteq> 0)"
| "truthy (JStr s) = (s \<noteq> [])"
| "truthy (JArr xs) = True"
| "truthy (JObj fs) = True"

text \<open>Reading a property of a parsed body or query object: \<^verbatim>\<open>undefined\<close> when absent.\<close>

definition js_prop :: "(string \<times> jsval) list \<Rightarrow> string \<Rightarrow> jsval" where
  "js_prop fs k = (case map_of fs k of None \<Rightarrow> JUndefined | Some v \<Rightarrow> v)"

section \<open>JavaScript numbers\<close>

text \<open>
  A JavaScript number is an IEEE-754 binary64 value. \<open>fl\<close> rounds a rational to the
  nearest value with a 53-bit significand, ties to the even significand, as every
  arithmetic operation of the language does. The exponent range is not modelled: the
  quantities of this program are quotients of row counts and their hundredfold, far from
  overflow and underflow.
\<close>

function bitlen :: "int \<Rightarrow> nat" where
  "bitlen n = (if n \<le> 0 then 0 else Suc (bitlen (n div 2)))"
  by pat_completeness auto
termination
  by (relation "measure nat") auto

declare bitlen.simps [simp del]

definition pow2 :: "int \<Rightarrow> rat" where
  "pow2 e = (if 0 \<le> e then 2 ^ nat e else 1 / 2 ^ nat (- e))"

text \<open>The binary exponent of a positive rational: \<open>pow2 e \<le> x < pow2 (e + 1)\<close>.\<close>

definition binexp :: "rat \<Rightarrow> int" where
  "binexp x =
     (if 1 \<le> x then int (bitlen \<lfloor>x\<rfloor>) - 1
      else let k = int (bitlen \<lfloor>1 / x\<rfloor>) - 1
           in if x * pow2 k = 1 then - k else - k - 1)"

definition round_even :: "rat \<Rightarrow> int" where
  "round_even q =
     (let f = \<lfloor>q\<rfloor>; r = q - of_int f
      in if r < 1 / 2 then f
         else if 1 / 2 < r then f + 1
         else if even f then f else f + 1)"

definition fl :: "rat \<Rightarrow> rat" where
  "fl x =
     (if x = 0 then 0
      else let a = \<bar>x\<bar>; u = pow2 (binexp a - 52)
           in sgn x * of_int (round_even (a / u)) * u)"

text \<open>
  \<^verbatim>\<open>a / b\<close>: \<open>None\<close> stands for the non-finite results (\<^verbatim>\<open>Infinity\<close>, \<^verbatim>\<open>NaN\<close>) of a
  division by zero.
\<close>

definition js_div :: "rat \<Rightarrow> rat \<Rightarrow> rat option" where
  "js_div a b = (if b = 0 then None else Some (fl (a / b)))"

definition js_mul :: "rat \<Rightarrow> rat \<Rightarrow> rat" where
  "js_mul a b = fl (a * b)"

text \<open>
  \<^verbatim>\<open>parseInt(row.count)\<close>: the driver hands a \<^verbatim>\<open>COUNT(*)\<close> (a bigint) over as its
  decimal string, and \<^verbatim>\<open>parseInt\<close> yields the number nearest to it.
\<close>

definition parseInt :: "nat \<Rightarrow> rat" where
  "parseInt n = fl (of_nat n)"

subsection \<open>Decimal strings\<close>

text \<open>The decimal numeral of a non-negative integer, and the integer a numeral denotes.\<close>

function digits_of :: "int \<Rightarrow> string" where
  "digits_of n =
     (if n < 10 then [''0123456789'' ! nat n]
      else digits_of (n div 10) @ [''0123456789'' ! nat (n mod 10)])"
  by pat_completeness auto
termination
  by (relation "measure nat") auto

declare digits_of.simps [simp del]

definition digit_val :: "char \<Rightarrow> int" where
  "digit_val c = of_char c - 48"

definition int_of_digits :: "string \<Rightarrow> int" where
  "int_of_digits s = foldl (\<lambda>a c. 10 * a + digit_val c) 0 s"

text \<open>
  \<^verbatim>\<open>Number.prototype.toFixed\<close> for a finite number below \<open>10\<^sup>2\<^sup>1\<close>: the integer \<open>n\<close>
  with \<open>n / 10\<^sup>f\<close> nearest to the number, the larger one of two, printed with \<open>f\<close>
  digits after the point.
\<close>

definition toFixed_int :: "rat \<Rightarrow> nat \<Rightarrow> int" where
  "toFixed_int x f = \<lfloor>\<bar>x\<bar> * 10 ^ f + 1 / 2\<rfloor>"

definition toFixed :: "rat \<Rightarrow> nat \<Rightarrow> string" where
  "toFixed x f =
     (let m = digits_of (toFixed_int x f);
          z = replicate (Suc f - length m) (CHR ''0'') @ m;
          k = length z - f;
          b = (if f = 0 then z else take k z @ ''.'' @ drop k z)
      in if x < 0 then ''-'' @ b else b)"

text \<open>
  \<^verbatim>\<open>((count / total) * 100).toFixed(f)\<close>. When the quotient is not finite the product is
  not either, and \<^verbatim>\<open>toFixed\<close> prints its name.
\<close>

definition percent_text :: "rat \<Rightarrow> rat \<Rightarrow> nat \<Rightarrow> string" where
  "percent_text c t f =
     (case js_div c t of
        Some q \<Rightarrow> toFixed (js_mul q 100) f
      | None \<Rightarrow> (if c = 0 then ''NaN'' else if 0 < c then ''Infinity'' else ''-Infinity''))"

text \<open>
  The number an unsigned decimal string such as \<open>''66.67''\<close> denotes, used to read the
  percentages of a response back.
\<close>

definition decimal_value :: "string \<Rightarrow> rat" where
  "decimal_value s =
     (let i = takeWhile (\<lambda>c. c \<noteq> CHR ''.'') s;
          r = drop 1 (dropWhile (\<lambda>c. c \<noteq> CHR ''.'') s)
      in of_int (int_of_digits i) + of_int (int_of_digits r) / 10 ^ length r)"

section \<open>Configuration\<close>

text \<open>
  \<^verbatim>\<open>const OPTION_A = process.env.OPTION_A || "cats"\<close>: an unset or empty variable
  falls back to the default.
\<close>

record config =
  OPTION_A :: string
  OPTION_B :: string

definition env_or :: "(string \<rightharpoonup> string) \<Rightarrow> string \<Rightarrow> string \<Rightarrow> string" where
  "env_or env k d = (case env k of None \<Rightarrow> d | Some v \<Rightarrow> if v = [] then d else v)"

definition load_config :: "(string \<rightharpoonup> string) \<Rightarrow> config" where
  "load_config env =
     \<lparr>OPTION_A = env_or env ''OPTION_A'' ''cats'', OPTION_B = env_or env ''OPTION_B'' ''dogs''\<rparr>"

section \<open>The vote store\<close>

text \<open>
  The table of \<^verbatim>\<open>runMigrations\<close>:
  \<^verbatim>\<open>id SERIAL PRIMARY KEY, option VARCHAR(255) NOT NULL, voted_at TIMESTAMP DEFAULT CURRENT_TIMESTAMP\<close>.
  A row's id is a 32-bit integer drawn from the sequence \<open>votes_id_seq\<close>, which counts
  from 1 to 2147483647 and is never reset by a \<^verbatim>\<open>DELETE\<close>.
\<close>

record vote =
  vote_id :: "32 word"
  vote_option :: string
  voted_at :: nat

record database =
  votes :: "vote list"
  votes_id_seq :: int

datatype pg_error =
    ConnectionFailed
  | StatementFailed
  | SequenceExhausted
  | StringTooLong
  | UniqueViolation

definition empty_database :: database where
  "empty_database = \<lparr>votes = [], votes_id_seq = 1\<rparr>"

text \<open>The primary key: no two rows share an id.\<close>

definition table_ok :: "database \<Rightarrow> bool" where
  "table_ok d = distinct (map vote_id (votes d))"

text \<open>
  Storing a string in a \<^verbatim>\<open>VARCHAR(255)\<close> column: a longer string is an error, unless
  the excess is all spaces, which are cut off.
\<close>

definition varchar255 :: "string \<Rightarrow> string option" where
  "varchar255 s =
     (if length s \<le> 255 then Some s
      else if list_all (\<lambda>c. c = CHR '' '') (drop 255 s) then Some (take 255 s)
      else None)"

text \<open>
  A statement maps the database to its outcome and the database after it.
  \<^verbatim>\<open>SELECT 1\<close>:
\<close>

definition sql_select_1 :: "database \<Rightarrow> (pg_error + unit) \<times> database" where
  "sql_select_1 d = (Inr (), d)"

text \<open>
  \<^verbatim>\<open>INSERT INTO votes (option) VALUES ($1)\<close> at time \<open>now\<close>. A value that the column
  refuses is rejected before the sequence is asked for an id, and leaves the sequence as
  it was; a row that the primary key refuses has used up its id.
\<close>

definition sql_insert_vote :: "string \<Rightarrow> nat \<Rightarrow> database \<Rightarrow> (pg_error + unit) \<times> database" where
  "sql_insert_vote opt now d =
     (case varchar255 opt of
        None \<Rightarrow> (Inl StringTooLong, d)
      | Some v \<Rightarrow>
          let n = votes_id_seq d in
          if 2147483647 < n then (Inl SequenceExhausted, d)
          else
            let d1 = d\<lparr>votes_id_seq := n + 1\<rparr> in
            if word_of_int n \<in> set (map vote_id (votes d)) then (Inl UniqueViolation, d1)
            else (Inr (),
                  d1\<lparr>votes := votes d @ [\<lparr>vote_id = word_of_int n, vote_option = v, voted_at = now\<rparr>]\<rparr>))"

text \<open>
  \<^verbatim>\<open>SELECT option, COUNT(*) as count FROM votes GROUP BY option ORDER BY count DESC\<close>.
  The engine leaves the order of options with equal counts open; here the groups are
  formed in the order in which the options first occur in the table, and the sort is
  stable.
\<close>

fun first_seen :: "string list \<Rightarrow> string list" where
  "first_seen [] = []"
| "first_seen (x # xs) = x # filter (\<lambda>y. y \<noteq> x) (first_seen xs)"

definition count_option :: "string \<Rightarrow> database \<Rightarrow> nat" where
  "count_option opt d = length (filter (\<lambda>r. vote_option r = opt) (votes d))"

definition group_counts :: "database \<Rightarrow> (string \<times> nat) list" where
  "group_counts d = map (\<lambda>opt. (opt, count_option opt d)) (first_seen (map vote_option (votes d)))"

definition grouped_rows :: "database \<Rightarrow> (string \<times> nat) list" where
  "grouped_rows d = sort_key (\<lambda>row. - int (snd row)) (group_counts d)"

definition sql_count_by_option :: "database \<Rightarrow> (pg_error + (string \<times> nat) list) \<times> database" where
  "sql_count_by_option d = (Inr (grouped_rows d), d)"

text \<open>The same rows, as a function of the options stored in the table, in table order.\<close>

definition rows_of_options :: "string list \<Rightarrow> (string \<times> nat) list" where
  "rows_of_options opts =
     sort_key (\<lambda>row. - int (snd row))
       (map (\<lambda>opt. (opt, length (filter (\<lambda>x. x = opt) opts))) (first_seen opts))"

text \<open>\<^verbatim>\<open>SELECT COUNT(*) as total FROM votes\<close>\<close>

definition sql_count_total :: "database \<Rightarrow> (pg_error + nat) \<times> database" where
  "sql_count_total d = (Inr (length (votes d)), d)"

text \<open>\<^verbatim>\<open>DELETE FROM votes\<close>, answering with the number of rows deleted.\<close>

definition sql_delete_all :: "database \<Rightarrow> (pg_error + nat) \<times> database" where
  "sql_delete_all d = (Inr (length (votes d)), d\<lparr>votes := []\<rparr>)"

section \<open>Connections\<close>

text \<open>
  Each service holds its own pool of clients on the shared database. \<open>link\<close> is the
  condition of the path to the database while one request is handled: \<open>Up\<close>, or
  \<open>Refused\<close> (\<^verbatim>\<open>pool.connect()\<close> rejects), or \<open>Broken\<close> (a client is handed
  out, but its statements reject). The pool is modelled by the number of clients that
  are checked out and not yet released.
\<close>

datatype service = Vote | Results

datatype link = Up | Refused | Broken

record world =
  store :: database
  vote_in_use :: nat
  results_in_use :: nat

definition in_use :: "service \<Rightarrow> world \<Rightarrow> nat" where
  "in_use svc w = (case svc of Vote \<Rightarrow> vote_in_use w | Results \<Rightarrow> results_in_use w)"

definition set_in_use :: "service \<Rightarrow> nat \<Rightarrow> world \<Rightarrow> world" where
  "set_in_use svc n w =
     (case svc of Vote \<Rightarrow> w\<lparr>vote_in_use := n\<rparr> | Results \<Rightarrow> w\<lparr>results_in_use := n\<rparr>)"

definition pool_connect :: "service \<Rightarrow> link \<Rightarrow> world \<Rightarrow> (pg_error + unit) \<times> world" where
  "pool_connect svc l w =
     (if l = Refused then (Inl ConnectionFailed, w)
      else (Inr (), set_in_use svc (Suc (in_use svc w)) w))"

definition client_release :: "service \<Rightarrow> world \<Rightarrow> world" where
  "client_release svc w = set_in_use svc (in_use svc w - 1) w"

definition client_query ::
  "link \<Rightarrow> (database \<Rightarrow> (pg_error + 'a) \<times> database) \<Rightarrow> world \<Rightarrow> (pg_error + 'a) \<times> world" where
  "client_query l stmt w =
     (if l \<noteq> Up then (Inl StatementFailed, w)
      else case stmt (store w) of (r, d) \<Rightarrow> (r, w\<lparr>store := d\<rparr>))"

text \<open>
  \<^verbatim>\<open>pool.query(...)\<close>: checks a client out, runs the statement and releases the
  client whether the statement succeeded or not.
\<close>

definition pool_query ::
  "service \<Rightarrow> link \<Rightarrow> (database \<Rightarrow> (pg_error + 'a) \<times> database) \<Rightarrow> world \<Rightarrow> (pg_error + 'a) \<times> world" where
  "pool_query svc l stmt w =
     (case pool_connect svc l w of
        (Inl e, w1) \<Rightarrow> (Inl e, w1)
      | (Inr u, w1) \<Rightarrow> (case client_query l stmt w1 of (r, w2) \<Rightarrow> (r, client_release svc w2)))"

section \<open>Requests and responses\<close>

text \<open>
  Of a request, the handlers read \<^verbatim>\<open>req.body\<close> and \<^verbatim>\<open>req.query\<close>, the objects
  that the body and query parsers leave on it.
\<close>

record request =
  body :: "(string \<times> jsval) list"
  query :: "(string \<times> jsval) list"

text \<open>
  What the results page shows: the fields that the template of \<^verbatim>\<open>app.get("/")\<close>
  interpolates. A bar width is \<open>None\<close> when it is not a finite number.
\<close>

record result_item =
  item_option :: string
  item_count :: rat
  item_unit :: string
  item_bar_width :: "rat option"
  item_percentage :: jsval

datatype results_block = EmptyState | ResultItems "result_item list"

record results_page =
  page_total :: rat
  page_deleted_banner :: bool
  page_results :: results_block

text \<open>
  \<open>Redirect\<close> is \<^verbatim>\<open>res.redirect(url)\<close> (status 302), \<open>Text\<close> is
  \<^verbatim>\<open>res.status(n).send(text)\<close>, \<open>Json\<close> is \<^verbatim>\<open>res.status(n).json(v)\<close> and \<open>Html\<close> the
  results page sent with status 200.
\<close>

datatype response =
    Redirect string
  | Text nat string
  | Json nat jsval
  | Html results_page

section \<open>The vote service\<close>

definition health_body :: "string \<Rightarrow> string \<Rightarrow> string \<Rightarrow> jsval" where
  "health_body st name dbs =
     JObj [(''status'', JStr st), (''service'', JStr name), (''database'', JStr dbs)]"

definition service_name :: "service \<Rightarrow> string" where
  "service_name svc = (case svc of Vote \<Rightarrow> ''vote'' | Results \<Rightarrow> ''results'')"

text \<open>
  \<^verbatim>\<open>app.get("/healthz")\<close>, the same in both services but for the name. The client is
  released inside the \<^verbatim>\<open>try\<close> block, after the query: when the query throws,
  control passes to \<^verbatim>\<open>catch\<close> and the client stays checked out.
\<close>

definition healthz :: "service \<Rightarrow> link \<Rightarrow> world \<Rightarrow> response \<times> world" where
  "healthz svc l w =
     (case pool_connect svc l w of
        (Inl e, w1) \<Rightarrow> (Json 503 (health_body ''unhealthy'' (service_name svc) ''disconnected''), w1)
      | (Inr u, w1) \<Rightarrow>
          (case client_query l sql_select_1 w1 of
             (Inl e, w2) \<Rightarrow>
               (Json 503 (health_body ''unhealthy'' (service_name svc) ''disconnected''), w2)
           | (Inr u, w2) \<Rightarrow>
               (Json 200 (health_body ''healthy'' (service_name svc) ''connected''),
                client_release svc w2)))"

text \<open>\<^verbatim>\<open>app.get("/health")\<close>, the legacy check.\<close>

definition health :: "service \<Rightarrow> response" where
  "health svc = Json 200 (JObj [(''status'', JStr ''ok''), (''service'', JStr (service_name svc))])"

text \<open>
  \<^verbatim>\<open>app.post("/vote")\<close>. \<^verbatim>\<open>option !== OPTION_A\<close> is strict: a value that is not a
  string differs from every configured option, so a value that passes the check is a
  string, and the last case below is never taken. Calls of the logger are left out here
  and in the other handlers.
\<close>

definition post_vote :: "config \<Rightarrow> link \<Rightarrow> nat \<Rightarrow> request \<Rightarrow> world \<Rightarrow> response \<times> world" where
  "post_vote cfg l now req w =
     (let option = js_prop (body req) ''option'' in
      if \<not> truthy option \<or> (option \<noteq> JStr (OPTION_A cfg) \<and> option \<noteq> JStr (OPTION_B cfg))
      then (Text 400 ''Invalid option'', w)
      else
        case option of
          JStr opt \<Rightarrow>
            (case pool_query Vote l (sql_insert_vote opt now) w of
               (Inr u, w1) \<Rightarrow> (Redirect ''/?success=1'', w1)
             | (Inl e, w1) \<Rightarrow> (Text 500 ''Error saving vote'', w1))
        | _ \<Rightarrow> (Text 400 ''Invalid option'', w))"

section \<open>The results service\<close>

subsection \<open>The tally object of the results page\<close>

text \<open>
  \<^verbatim>\<open>result.rows.reduce((acc, row) => { acc[row.option] = parseInt(row.count); return acc; }, {})\<close>
  builds an ordinary object. Assigning to \<^verbatim>\<open>__proto__\<close> calls the setter inherited
  from \<^verbatim>\<open>Object.prototype\<close>, which ignores a number, so no property is created.
  \<^verbatim>\<open>Object.entries\<close> and \<^verbatim>\<open>Object.values\<close> list the keys that are array indices
  (canonical decimal numerals up to \<open>2\<^sup>3\<^sup>2 - 2\<close>) first, in ascending numeric order, and
  then the other keys in the order of their creation.
\<close>

definition obj_set :: "(string \<times> rat) list \<Rightarrow> string \<Rightarrow> rat \<Rightarrow> (string \<times> rat) list" where
  "obj_set obj k v =
     (if k = ''__proto__'' then obj
      else if k \<in> set (map fst obj) then map (\<lambda>p. if fst p = k then (k, v) else p) obj
      else obj @ [(k, v)])"

definition is_array_index :: "string \<Rightarrow> bool" where
  "is_array_index s =
     (s \<noteq> [] \<and> list_all (\<lambda>c. c \<in> set ''0123456789'') s \<and> (length s = 1 \<or> hd s \<noteq> CHR ''0'')
      \<and> int_of_digits s \<le> 4294967294)"

definition own_entries :: "(string \<times> rat) list \<Rightarrow> (string \<times> rat) list" where
  "own_entries obj =
     sort_key (\<lambda>p. int_of_digits (fst p)) (filter (\<lambda>p. is_array_index (fst p)) obj)
     @ filter (\<lambda>p. \<not> is_array_index (fst p)) obj"

definition tally :: "(string \<times> nat) list \<Rightarrow> (string \<times> rat) list" where
  "tally rows = foldl (\<lambda>acc row. obj_set acc (fst row) (parseInt (snd row))) [] rows"

text \<open>\<^verbatim>\<open>Math.max(...Object.values(votes), 1)\<close>\<close>

definition max_votes :: "(string \<times> rat) list \<Rightarrow> rat" where
  "max_votes obj = foldr max (map snd (own_entries obj)) 1"

text \<open>
  In the words of the specification, the denominator of the bar widths: the highest count
  of an option stored in the table, floored at 1. It is compared with \<open>max_votes\<close> below.
\<close>

definition highest_count :: "database \<Rightarrow> nat" where
  "highest_count d = Max (insert 1 ((\<lambda>opt. count_option opt d) ` set (map vote_option (votes d))))"

text \<open>One entry of \<^verbatim>\<open>Object.entries(votes).map(([option, count]) => ...)\<close>.\<close>

definition render_item :: "rat \<Rightarrow> rat \<Rightarrow> string \<times> rat \<Rightarrow> result_item" where
  "render_item total_n maxVotes e =
     (let count = snd e in
      \<lparr>item_option = fst e,
       item_count = count,
       item_unit = (if count = 1 then ''vote'' else ''votes''),
       item_bar_width =
         (if 0 < total_n then map_option (\<lambda>q. js_mul q 100) (js_div count maxVotes) else Some 0),
       item_percentage = (if 0 < total_n then JStr (percent_text count total_n 1) else JNum 0)\<rparr>)"

text \<open>\<^verbatim>\<open>app.get("/")\<close> of the results service.\<close>

definition get_results :: "link \<Rightarrow> request \<Rightarrow> world \<Rightarrow> response \<times> world" where
  "get_results l req w =
     (case pool_query Results l sql_count_by_option w of
        (Inl e, w1) \<Rightarrow> (Text 500 ''Error retrieving results'', w1)
      | (Inr rows, w1) \<Rightarrow>
          (case pool_query Results l sql_count_total w1 of
             (Inl e, w2) \<Rightarrow> (Text 500 ''Error retrieving results'', w2)
           | (Inr t, w2) \<Rightarrow>
               (let total_n = parseInt t;
                    votes_obj = tally rows;
                    maxVotes = max_votes votes_obj
                in (Html \<lparr>page_total = total_n,
                          page_deleted_banner = truthy (js_prop (query req) ''deleted''),
                          page_results =
                            (if total_n = 0 then EmptyState
                             else ResultItems
                                    (map (render_item total_n maxVotes) (own_entries votes_obj)))\<rparr>,
                    w2))))"

text \<open>\<^verbatim>\<open>app.post("/delete-all")\<close>\<close>

definition post_delete_all :: "link \<Rightarrow> world \<Rightarrow> response \<times> world" where
  "post_delete_all l w =
     (case pool_query Results l sql_delete_all w of
        (Inr n, w1) \<Rightarrow> (Redirect ''/?deleted=1'', w1)
      | (Inl e, w1) \<Rightarrow> (Text 500 ''Error deleting votes'', w1))"

text \<open>\<^verbatim>\<open>app.get("/api/results")\<close>\<close>

definition api_entry :: "rat \<Rightarrow> string \<times> nat \<Rightarrow> jsval" where
  "api_entry total_n row =
     JObj [(''option'', JStr (fst row)),
           (''count'', JNum (parseInt (snd row))),
           (''percentage'',
              if 0 < total_n then JStr (percent_text (parseInt (snd row)) total_n 2) else JNum 0)]"

definition api_results :: "link \<Rightarrow> world \<Rightarrow> response \<times> world" where
  "api_results l w =
     (case pool_query Results l sql_count_by_option w of
        (Inl e, w1) \<Rightarrow> (Json 500 (JObj [(''error'', JStr ''Error retrieving results'')]), w1)
      | (Inr rows, w1) \<Rightarrow>
          (case pool_query Results l sql_count_total w1 of
             (Inl e, w2) \<Rightarrow> (Json 500 (JObj [(''error'', JStr ''Error retrieving results'')]), w2)
           | (Inr t, w2) \<Rightarrow>
               (let total_n = parseInt t
                in (Json 200 (JObj [(''total'', JNum total_n),
                                    (''results'', JArr (map (api_entry total_n) rows))]),
                    w2))))"

text \<open>Reading a response of the results API back.\<close>

definition json_field :: "string \<Rightarrow> jsval \<Rightarrow> jsval" where
  "json_field k v = (case v of JObj fs \<Rightarrow> js_prop fs k | _ \<Rightarrow> JUndefined)"

definition json_number :: "jsval \<Rightarrow> rat" where
  "json_number v = (case v of JNum r \<Rightarrow> r | JStr s \<Rightarrow> decimal_value s | _ \<Rightarrow> 0)"

definition json_string :: "jsval \<Rightarrow> string" where
  "json_string v = (case v of JStr s \<Rightarrow> s | _ \<Rightarrow> [])"

definition entry_option :: "jsval \<Rightarrow> string" where
  "entry_option e = json_string (json_field ''option'' e)"

definition entry_count :: "jsval \<Rightarrow> rat" where
  "entry_count e = json_number (json_field ''count'' e)"

definition entry_percentage :: "jsval \<Rightarrow> rat" where
  "entry_percentage e = json_number (json_field ''percentage'' e)"

section \<open>Scenarios\<close>

text \<open>
  Both services freshly started on the table that the migration has just created, a
  form submission of the voting page, and a run of submissions over a healthy link.
\<close>

definition initial_world :: world where
  "initial_world = \<lparr>store = empty_database, vote_in_use = 0, results_in_use = 0\<rparr>"

definition vote_request :: "string \<Rightarrow> request" where
  "vote_request opt = \<lparr>body = [(''option'', JStr opt)], query = []\<rparr>"

definition plain_request :: request where
  "plain_request = \<lparr>body = [], query = []\<rparr>"

fun cast_votes :: "config \<Rightarrow> string list \<Rightarrow> world \<Rightarrow> world" where
  "cast_votes cfg [] w = w"
| "cast_votes cfg (opt # opts) w = cast_votes cfg opts (snd (post_vote cfg Up 0 (vote_request opt) w))"

definition three_votes :: world where
  "three_votes = cast_votes (load_config Map.empty) [''cats'', ''cats'', ''dogs''] initial_world"

section \<open>Connections: basic facts\<close>

lemma release_after_connect:
  "client_release svc (set_in_use svc (Suc (in_use svc w)) (w\<lparr>store := d\<rparr>)) = w\<lparr>store := d\<rparr>"
  by (cases svc) (simp_all add: client_release_def set_in_use_def in_use_def)

lemma pool_query_Up:
  "pool_query svc Up stmt w = (fst (stmt (store w)), w\<lparr>store := snd (stmt (store w))\<rparr>)"
proof -
  have "set_in_use svc n w\<lparr>store := d\<rparr> = set_in_use svc n (w\<lparr>store := d\<rparr>)" for n d
    by (cases svc) (simp_all add: set_in_use_def)
  moreover have "store (set_in_use svc n w) = store w" for n
    by (cases svc) (simp_all add: set_in_use_def)
  ultimately show ?thesis
    by (simp add: pool_query_def pool_connect_def client_query_def release_after_connect
        split: prod.splits)
qed

lemma pool_query_Refused: "pool_query svc Refused stmt w = (Inl ConnectionFailed, w)"
  by (simp add: pool_query_def pool_connect_def)

lemma pool_query_Broken: "pool_query svc Broken stmt w = (Inl StatementFailed, w)"
proof -
  have "client_release svc (set_in_use svc (Suc (in_use svc w)) w) = w"
    using release_after_connect [of svc w "store w"] by simp
  then show ?thesis
    by (simp add: pool_query_def pool_connect_def client_query_def)
qed

lemma load_config_nonempty:
  "OPTION_A (load_config env) \<noteq> [] \<and> OPTION_B (load_config env) \<noteq> []"
  by (simp add: load_config_def env_or_def split: option.splits)

lemma fl_zero: "fl 0 = 0"
  by (simp add: fl_def)

lemma parseInt_zero: "parseInt 0 = 0"
  by (simp add: parseInt_def fl_zero)

section \<open>Rounding: the error of one operation, and exact integers\<close>

lemma pow2_powi: "pow2 e = 2 powi e"
  by (simp add: pow2_def power_int_def inverse_eq_divide power_one_over)

lemma pow2_pos: "0 < pow2 e"
  by (simp add: pow2_powi)

lemma pow2_add: "pow2 (a + b) = pow2 a * pow2 b"
  by (simp add: pow2_powi power_int_add)

lemma pow2_nat: "pow2 (int n) = 2 ^ n"
  by (simp add: pow2_def)

lemma pow2_neg_nat: "pow2 (- int n) = 1 / 2 ^ n"
  by (simp add: pow2_powi power_int_minus_divide)

lemma pow2_less_iff: "pow2 a < pow2 b \<longleftrightarrow> a < b"
proof
  assume l: "pow2 a < pow2 b"
  show "a < b"
  proof (rule ccontr)
    assume "\<not> a < b"
    then have "b \<le> a" by simp
    then have "(2::rat) powi b \<le> 2 powi a" by (intro power_int_increasing) simp_all
    with l show False by (simp add: pow2_powi)
  qed
next
  assume "a < b"
  then show "pow2 a < pow2 b"
    by (simp add: pow2_powi power_int_strict_increasing)
qed

lemma bitlen_bounds: "0 < n \<Longrightarrow> 2 ^ (bitlen n - 1) \<le> n \<and> n < 2 ^ bitlen n"
proof (induction n rule: bitlen.induct)
  case (1 n)
  show ?case
  proof (cases "n div 2 \<le> 0")
    case True
    with "1.prems" have "n = 1" by linarith
    then show ?thesis
      by (simp add: bitlen.simps [of 1] bitlen.simps [of 0])
  next
    case False
    then have pos: "0 < n div 2" by simp
    define b where "b = bitlen (n div 2)"
    have ih: "2 ^ (b - 1) \<le> n div 2 \<and> n div 2 < 2 ^ b"
      using "1.IH" "1.prems" pos by (simp add: b_def)
    have bl: "bitlen n = Suc b"
      using "1.prems" by (simp add: bitlen.simps [of n] b_def)
    have bpos: "0 < b"
      using pos by (simp add: b_def bitlen.simps [of "n div 2"])
    then have p: "(2::int) ^ b = 2 * 2 ^ (b - 1)"
      by (cases b) simp_all
    have lo: "2 ^ b \<le> n"
      using ih p by linarith
    have hi: "n < 2 * 2 ^ b"
      using ih by linarith
    show ?thesis
      using lo hi by (simp add: bl)
  qed
qed

lemma binexp_bounds:
  assumes "0 < x"
  shows "pow2 (binexp x) \<le> x \<and> x < 2 * pow2 (binexp x)"
proof (cases "1 \<le> x")
  case True
  define f where "f = \<lfloor>x\<rfloor>"
  have f1: "1 \<le> f" using True by (simp add: f_def le_floor_iff)
  have fb: "2 ^ (bitlen f - 1) \<le> f \<and> f < 2 ^ bitlen f"
    using bitlen_bounds [of f] f1 by simp
  have bpos: "0 < bitlen f"
    using f1 by (simp add: bitlen.simps [of f])
  have e: "binexp x = int (bitlen f - 1)"
    using True bpos by (simp add: binexp_def f_def)
  have lo: "(2::rat) ^ (bitlen f - 1) \<le> x"
  proof -
    have "(of_int (2 ^ (bitlen f - 1)) :: rat) \<le> of_int f"
      using fb by (simp only: of_int_le_iff)
    also have "\<dots> \<le> x" by (simp add: f_def)
    finally show ?thesis by simp
  qed
  have hi: "x < 2 * 2 ^ (bitlen f - 1)"
  proof -
    have "f + 1 \<le> 2 ^ bitlen f" using fb by simp
    then have "(of_int (f + 1) :: rat) \<le> of_int (2 ^ bitlen f)"
      by (simp only: of_int_le_iff)
    moreover have "x < of_int (f + 1)" using floor_correct [of x] by (simp add: f_def)
    moreover have "(2::rat) ^ bitlen f = 2 * 2 ^ (bitlen f - 1)"
      using bpos by (cases "bitlen f") simp_all
    ultimately show ?thesis by simp
  qed
  show ?thesis
    using lo hi by (simp add: e pow2_nat)
next
  case False
  define y where "y = 1 / x"
  have y1: "1 < y" using False assms by (simp add: y_def)
  define f where "f = \<lfloor>y\<rfloor>"
  have f1: "1 \<le> f" using y1 by (simp add: f_def le_floor_iff)
  have fb: "2 ^ (bitlen f - 1) \<le> f \<and> f < 2 ^ bitlen f"
    using bitlen_bounds [of f] f1 by simp
  have bpos: "0 < bitlen f"
    using f1 by (simp add: bitlen.simps [of f])
  define k where "k = bitlen f - 1"
  have lo: "(2::rat) ^ k \<le> y"
  proof -
    have "(of_int (2 ^ k) :: rat) \<le> of_int f"
      using fb by (simp only: of_int_le_iff k_def)
    also have "\<dots> \<le> y" by (simp add: f_def)
    finally show ?thesis by simp
  qed
  have hi: "y < 2 * 2 ^ k"
  proof -
    have "f + 1 \<le> 2 ^ bitlen f" using fb by simp
    then have "(of_int (f + 1) :: rat) \<le> of_int (2 ^ bitlen f)"
      by (simp only: of_int_le_iff)
    moreover have "y < of_int (f + 1)" using floor_correct [of y] by (simp add: f_def)
    moreover have "(2::rat) ^ bitlen f = 2 * 2 ^ k"
      using bpos by (cases "bitlen f") (simp_all add: k_def)
    ultimately show ?thesis by simp
  qed
  have xlo: "1 / (2 * 2 ^ k) < x"
    using hi assms by (simp add: y_def field_simps)
  have xhi: "x \<le> 1 / 2 ^ k"
    using lo assms by (simp add: y_def field_simps)
  have kk: "int (bitlen f) - 1 = int k"
    using bpos by (simp add: k_def)
  show ?thesis
  proof (cases "x * 2 ^ k = 1")
    case True
    then have e: "binexp x = - int k"
      using False by (simp add: binexp_def Let_def f_def [symmetric] y_def [symmetric] kk pow2_nat)
    have xe: "x = 1 / 2 ^ k" using True by (simp add: field_simps)
    have pe: "pow2 (binexp x) = 1 / 2 ^ k" by (simp add: e pow2_neg_nat)
    have "x \<le> x \<and> x < 2 * x"
      using assms by simp
    then have "1 / 2 ^ k \<le> x \<and> x < 2 * (1 / 2 ^ k)"
      using xe by simp
    then show ?thesis
      by (simp only: pe)
  next
    case ne: False
    then have e: "binexp x = - int k - 1"
      using False by (simp add: binexp_def Let_def f_def [symmetric] y_def [symmetric] kk pow2_nat)
    have "x \<noteq> 1 / 2 ^ k" using ne by (auto simp add: field_simps)
    then have "x < 1 / 2 ^ k" using xhi by simp
    moreover have "pow2 (- int k - 1) = 1 / (2 * 2 ^ k)"
    proof -
      have "- int k - 1 = - int (Suc k)" by simp
      then have "pow2 (- int k - 1) = 1 / 2 ^ Suc k" by (simp only: pow2_neg_nat)
      then show ?thesis by simp
    qed
    ultimately have "pow2 (- int k - 1) \<le> x \<and> x < 2 * pow2 (- int k - 1)"
      using xlo by simp
    then show ?thesis
      by (simp only: e)
  qed
qed

lemma round_even_error: "\<bar>of_int (round_even q) - q\<bar> \<le> 1 / 2"
proof -
  have "of_int \<lfloor>q\<rfloor> \<le> q" "q < of_int \<lfloor>q\<rfloor> + 1" by linarith+
  then show ?thesis
    by (auto simp add: round_even_def Let_def abs_le_iff)
qed

lemma round_even_of_int: "round_even (of_int n) = n"
  by (simp add: round_even_def)

lemma fl_error:
  assumes "0 < x"
  shows "\<bar>fl x - x\<bar> \<le> x / 2 ^ 53"
proof -
  define u where "u = pow2 (binexp x - 52)"
  have upos: "0 < u" by (simp add: u_def pow2_pos)
  have f: "fl x = of_int (round_even (x / u)) * u"
    using assms by (simp add: fl_def Let_def u_def)
  have "\<bar>fl x - x\<bar> = \<bar>of_int (round_even (x / u)) - x / u\<bar> * u"
  proof -
    have "fl x - x = (of_int (round_even (x / u)) - x / u) * u"
      using upos by (simp add: f field_simps)
    then show ?thesis
      using upos by (simp add: abs_mult)
  qed
  also have "\<dots> \<le> (1 / 2) * u"
    using round_even_error [of "x / u"] upos by (simp only: mult_right_mono less_imp_le)
  also have "\<dots> = pow2 (binexp x) / 2 ^ 53"
  proof -
    have "pow2 (binexp x - 52) = pow2 (binexp x) * pow2 (- 52)"
      using pow2_add [of "binexp x" "- 52"] by simp
    moreover have "pow2 (- 52) = 1 / 2 ^ 52"
      using pow2_neg_nat [of 52] by simp
    ultimately show ?thesis by (simp add: u_def)
  qed
  also have "\<dots> \<le> x / 2 ^ 53"
    using binexp_bounds [OF assms] by (simp add: divide_right_mono)
  finally show ?thesis .
qed

lemma fl_of_int_exact:
  assumes "0 < m" "m < 2 ^ 53"
  shows "fl (of_int m) = of_int m"
proof -
  define x :: rat where "x = of_int m"
  have xpos: "0 < x" using assms by (simp add: x_def)
  define e where "e = binexp x"
  have "pow2 e \<le> x" using binexp_bounds [OF xpos] by (simp add: e_def)
  also have "x < 2 ^ 53"
  proof -
    have "(of_int m :: rat) < of_int (2 ^ 53)" using assms(2) by (simp only: of_int_less_iff)
    then show ?thesis by (simp add: x_def)
  qed
  finally have "pow2 e < pow2 53" using pow2_nat [of 53] by simp
  then have e52: "e \<le> 52" by (simp add: pow2_less_iff)
  define j where "j = nat (52 - e)"
  have u: "pow2 (e - 52) = 1 / 2 ^ j"
    using e52 pow2_neg_nat [of j] by (simp add: j_def)
  have q: "x / pow2 (e - 52) = of_int (m * 2 ^ j)"
    by (simp add: u x_def)
  have "fl x = of_int (round_even (x / pow2 (e - 52))) * pow2 (e - 52)"
    using xpos by (simp add: fl_def Let_def e_def)
  also have "\<dots> = of_int (m * 2 ^ j) * pow2 (e - 52)"
    by (simp only: q round_even_of_int)
  also have "\<dots> = of_int (m * 2 ^ j) * (1 / 2 ^ j)"
    by (simp only: u)
  also have "\<dots> = x"
    by (simp add: x_def)
  finally show ?thesis by (simp add: x_def)
qed

lemma parseInt_exact: "n < 2 ^ 53 \<Longrightarrow> parseInt n = of_nat n"
proof (cases "n = 0")
  case True
  then show ?thesis by (simp add: parseInt_def fl_def)
next
  case False
  assume "n < 2 ^ 53"
  then have "int n < 2 ^ 53" by (metis of_nat_less_iff of_nat_numeral of_nat_power)
  moreover have "0 < int n" using False by simp
  ultimately have "fl (of_int (int n)) = of_int (int n)" by (rule fl_of_int_exact [rotated])
  then show ?thesis by (simp add: parseInt_def)
qed

section \<open>Decimal strings: reading back what \<open>toFixed\<close> prints\<close>

lemma digit_char_cases:
  assumes "0 \<le> d" "d < (10::int)"
  shows "digit_val (''0123456789'' ! nat d) = d \<and> ''0123456789'' ! nat d \<noteq> CHR ''.''"
proof -
  from assms have "d = 0 \<or> d = 1 \<or> d = 2 \<or> d = 3 \<or> d = 4 \<or> d = 5 \<or> d = 6 \<or> d = 7 \<or> d = 8 \<or> d = 9"
    by presburger
  then show ?thesis
    by (elim disjE) (simp_all add: digit_val_def)
qed

lemma int_of_digits_append:
  "int_of_digits (a @ b) = int_of_digits a * 10 ^ length b + int_of_digits b"
proof -
  have *: "foldl (\<lambda>a c. 10 * a + digit_val c) v b
          = v * 10 ^ length b + foldl (\<lambda>a c. 10 * a + digit_val c) 0 b" for v
  proof (induction b arbitrary: v rule: rev_induct)
    case Nil
    then show ?case by simp
  next
    case (snoc x xs)
    show ?case using snoc [of v] by (simp add: algebra_simps)
  qed
  show ?thesis
    unfolding int_of_digits_def foldl_append by (rule *)
qed

lemma int_of_digits_single: "int_of_digits [c] = digit_val c"
  by (simp add: int_of_digits_def)

lemma int_of_digits_zeros: "int_of_digits (replicate j (CHR ''0'')) = 0"
proof (induction j)
  case 0
  show ?case by (simp add: int_of_digits_def)
next
  case (Suc j)
  have "replicate (Suc j) (CHR ''0'') = replicate j (CHR ''0'') @ ''0''"
    by (simp add: replicate_append_same)
  then have "int_of_digits (replicate (Suc j) (CHR ''0''))
               = int_of_digits (replicate j (CHR ''0'')) * 10 + digit_val (CHR ''0'')"
    by (simp only: int_of_digits_append int_of_digits_single) simp
  then show ?case
    by (simp add: Suc.IH digit_val_def)
qed

lemma digits_of_value: "0 \<le> n \<Longrightarrow> int_of_digits (digits_of n) = n"
proof (induction n rule: digits_of.induct)
  case (1 n)
  show ?case
  proof (cases "n < 10")
    case True
    then show ?thesis
      using "1.prems" digit_char_cases [of n]
      by (simp add: digits_of.simps [of n] int_of_digits_single)
  next
    case False
    then have ih: "int_of_digits (digits_of (n div 10)) = n div 10"
      using "1.IH" by simp
    have m: "digit_val (''0123456789'' ! nat (n mod 10)) = n mod 10"
      using digit_char_cases [of "n mod 10"] by simp
    show ?thesis
      using False by (simp add: digits_of.simps [of n] int_of_digits_append ih
          int_of_digits_single m)
  qed
qed

lemma digits_of_no_point: "0 \<le> n \<Longrightarrow> CHR ''.'' \<notin> set (digits_of n)"
proof (induction n rule: digits_of.induct)
  case (1 n)
  show ?case
  proof (cases "n < 10")
    case True
    then show ?thesis
      using "1.prems" digit_char_cases [of n]
      by (auto simp add: digits_of.simps [of n])
  next
    case False
    then have ih: "CHR ''.'' \<notin> set (digits_of (n div 10))"
      using "1.IH" by simp
    have m: "''0123456789'' ! nat (n mod 10) \<noteq> CHR ''.''"
      using digit_char_cases [of "n mod 10"] by simp
    show ?thesis
      using False ih m by (auto simp add: digits_of.simps [of n])
  qed
qed

lemma decimal_value_split:
  assumes "CHR ''.'' \<notin> set a"
  shows "decimal_value (a @ ''.'' @ b)
           = of_int (int_of_digits a) + of_int (int_of_digits b) / 10 ^ length b"
proof -
  have t: "takeWhile (\<lambda>c. c \<noteq> CHR ''.'') (a @ CHR ''.'' # b) = a"
    using assms by (induction a) auto
  have d: "dropWhile (\<lambda>c. c \<noteq> CHR ''.'') (a @ CHR ''.'' # b) = CHR ''.'' # b"
    using assms by (induction a) auto
  show ?thesis
    by (simp add: decimal_value_def Let_def t d)
qed

lemma toFixed_2_value:
  assumes "0 \<le> x"
  shows "decimal_value (toFixed x 2) = of_int (toFixed_int x 2) / 100"
proof -
  define n where "n = toFixed_int x 2"
  have n0: "0 \<le> n"
    using assms by (simp add: n_def toFixed_int_def)
  define m where "m = digits_of n"
  define z where "z = replicate (3 - length m) (CHR ''0'') @ m"
  have len: "2 \<le> length z"
    by (simp add: z_def)
  define a where "a = take (length z - 2) z"
  define b where "b = drop (length z - 2) z"
  have zab: "z = a @ b"
    by (simp add: a_def b_def)
  have lb: "length b = 2"
    using len by (simp add: b_def)
  have nop: "CHR ''.'' \<notin> set z"
    using digits_of_no_point [OF n0] by (simp add: z_def m_def)
  then have nopa: "CHR ''.'' \<notin> set a"
    by (simp add: zab)
  have vz: "int_of_digits z = n"
    using digits_of_value [OF n0]
    by (simp add: z_def m_def int_of_digits_append int_of_digits_zeros)
  have tf: "toFixed x 2 = a @ ''.'' @ b"
    using assms by (simp add: toFixed_def Let_def a_def b_def z_def m_def n_def numeral_3_eq_3)
  have "decimal_value (toFixed x 2)
          = of_int (int_of_digits a) + of_int (int_of_digits b) / 10 ^ length b"
    by (simp only: tf decimal_value_split [OF nopa])
  also have "\<dots> = of_int (int_of_digits a * 100 + int_of_digits b) / 100"
    by (simp add: lb field_simps)
  also have "int_of_digits a * 100 + int_of_digits b = n"
    using vz int_of_digits_append [of a b] by (simp add: zab lb)
  finally show ?thesis
    by (simp add: n_def)
qed

section \<open>The grouped query\<close>

lemma first_seen_set: "set (first_seen xs) = set xs"
  by (induction xs) auto

lemma first_seen_distinct: "distinct (first_seen xs)"
  by (induction xs) (auto simp add: first_seen_set)

lemma sum_indicator_distinct:
  "distinct ys \<Longrightarrow> (\<Sum>y\<leftarrow>ys. if x = y then 1 else 0) = (if x \<in> set ys then 1 else (0::nat))"
  by (induction ys) auto

lemma sum_counts_cover:
  assumes "distinct ys" "set xs \<subseteq> set ys"
  shows "(\<Sum>y\<leftarrow>ys. length (filter (\<lambda>x. x = y) xs)) = length xs"
  using assms(2)
proof (induction xs)
  case Nil
  then show ?case by simp
next
  case (Cons x xs)
  have "(\<Sum>y\<leftarrow>ys. length (filter (\<lambda>z. z = y) (x # xs)))
          = (\<Sum>y\<leftarrow>ys. (if x = y then 1 else 0) + length (filter (\<lambda>z. z = y) xs))"
    by (intro arg_cong [where f = sum_list] map_cong) auto
  also have "\<dots> = (\<Sum>y\<leftarrow>ys. if x = y then 1 else 0) + (\<Sum>y\<leftarrow>ys. length (filter (\<lambda>z. z = y) xs))"
    by (simp add: sum_list_addf)
  also have "\<dots> = 1 + length xs"
    using Cons assms(1) by (simp add: sum_indicator_distinct)
  finally show ?case by simp
qed

lemma count_option_as_filter:
  "count_option opt d = length (filter (\<lambda>x. x = opt) (map vote_option (votes d)))"
  by (simp add: count_option_def filter_map comp_def)

lemma group_counts_sum: "(\<Sum>row\<leftarrow>group_counts d. snd row) = length (votes d)"
proof -
  have "(\<Sum>row\<leftarrow>group_counts d. snd row)
          = (\<Sum>y\<leftarrow>first_seen (map vote_option (votes d)).
               length (filter (\<lambda>x. x = y) (map vote_option (votes d))))"
    by (simp add: group_counts_def comp_def count_option_as_filter)
  also have "\<dots> = length (map vote_option (votes d))"
    by (rule sum_counts_cover) (simp_all add: first_seen_distinct first_seen_set)
  finally show ?thesis by simp
qed

lemma group_counts_row:
  assumes "row \<in> set (group_counts d)"
  shows "snd row = count_option (fst row) d \<and> 1 \<le> snd row
         \<and> fst row \<in> set (map vote_option (votes d))"
proof -
  from assms obtain opt where o: "opt \<in> set (map vote_option (votes d))"
      and r: "row = (opt, count_option opt d)"
    by (auto simp add: group_counts_def first_seen_set)
  from o have "filter (\<lambda>r. vote_option r = opt) (votes d) \<noteq> []"
    by (auto simp add: filter_empty_conv)
  then have "1 \<le> count_option opt d"
    by (simp add: count_option_def Suc_le_eq)
  then show ?thesis
    using o r by simp
qed

lemma group_counts_distinct: "distinct (map fst (group_counts d))"
  by (simp add: group_counts_def comp_def first_seen_distinct)

lemma sum_list_insort_key:
  "(\<Sum>x\<leftarrow>insort_key f a xs. g x) = g a + (\<Sum>x\<leftarrow>xs. (g x :: 'b :: comm_monoid_add))"
  by (induction xs) (simp_all add: ac_simps)

lemma sum_list_sort_key:
  "(\<Sum>x\<leftarrow>sort_key f xs. g x) = (\<Sum>x\<leftarrow>xs. (g x :: 'b :: comm_monoid_add))"
  by (induction xs) (simp_all add: sum_list_insort_key)

lemma grouped_rows_sum: "(\<Sum>row\<leftarrow>grouped_rows d. snd row) = length (votes d)"
  by (simp add: grouped_rows_def sum_list_sort_key group_counts_sum)

lemma grouped_rows_row:
  "row \<in> set (grouped_rows d) \<Longrightarrow>
     snd row = count_option (fst row) d \<and> 1 \<le> snd row \<and> fst row \<in> set (map vote_option (votes d))"
  using group_counts_row [of row d] by (simp add: grouped_rows_def)

lemma grouped_rows_descending: "sorted_wrt (\<lambda>r s. snd s \<le> snd r) (grouped_rows d)"
proof -
  have "sorted (map (\<lambda>row. - int (snd row)) (grouped_rows d))"
    by (simp add: grouped_rows_def)
  then have "sorted_wrt (\<lambda>r s. - int (snd r) \<le> - int (snd s)) (grouped_rows d)"
    by (simp only: sorted_map)
  then show ?thesis
    by (rule sorted_wrt_mono_rel [rotated]) simp
qed

lemma table_rows_bound:
  assumes "table_ok d"
  shows "length (votes d) \<le> 2 ^ 32"
proof -
  have "card (set (map vote_id (votes d))) = length (map vote_id (votes d))"
    using assms unfolding table_ok_def by (rule distinct_card)
  then have "length (votes d) = card (set (map vote_id (votes d)))"
    by simp
  also have "\<dots> \<le> card (UNIV :: 32 word set)"
    by (rule card_mono) simp_all
  also have "\<dots> = 2 ^ 32"
    by (simp add: card_word)
  finally show ?thesis .
qed

section \<open>The primary key is kept\<close>

text \<open>
  \<open>table_ok\<close> holds of the table the migration creates, and every handler that
  writes keeps it.
\<close>

lemma table_ok_initial: "table_ok (store initial_world)"
  by (simp add: table_ok_def initial_world_def empty_database_def)

lemma table_ok_insert:
  "table_ok d \<Longrightarrow> table_ok (snd (sql_insert_vote opt now d))"
  by (simp add: sql_insert_vote_def table_ok_def Let_def split: option.splits)

lemma store_pool_query:
  "store (snd (pool_query svc l stmt w))
     = (if l = Up then snd (stmt (store w)) else store w)"
  by (cases l) (simp_all add: pool_query_Up pool_query_Refused pool_query_Broken)

lemma table_ok_post_vote:
  "table_ok (store w) \<Longrightarrow> table_ok (store (snd (post_vote cfg l now req w)))"
proof -
  assume ok: "table_ok (store w)"
  have "store (snd (post_vote cfg l now req w)) = store w
        \<or> (\<exists>opt. store (snd (post_vote cfg l now req w)) = snd (sql_insert_vote opt now (store w)))"
  proof (cases "js_prop (body req) ''option''")
    case (JStr opt)
    have "store (snd (case pool_query Vote l (sql_insert_vote opt now) w of
                        (Inr u, w1) \<Rightarrow> (Redirect ''/?success=1'', w1)
                      | (Inl e, w1) \<Rightarrow> (Text 500 ''Error saving vote'', w1)))
            = store (snd (pool_query Vote l (sql_insert_vote opt now) w))"
      by (simp split: prod.splits sum.splits)
    then show ?thesis
      using JStr by (auto simp add: post_vote_def Let_def store_pool_query)
  qed (simp_all add: post_vote_def Let_def)
  then show ?thesis
    using ok table_ok_insert [OF ok] by auto
qed

lemma table_ok_delete_all:
  "table_ok (store w) \<Longrightarrow> table_ok (store (snd (post_delete_all l w)))"
proof -
  assume ok: "table_ok (store w)"
  have "store (snd (post_delete_all l w)) = store (snd (pool_query Results l sql_delete_all w))"
    by (simp add: post_delete_all_def split: prod.splits sum.splits)
  then show ?thesis
    using ok by (cases l) (simp_all add: store_pool_query sql_delete_all_def table_ok_def)
qed

section \<open>A percentage is within half a hundredth of the exact share\<close>

lemma fl_nonneg: "0 \<le> x \<Longrightarrow> 0 \<le> fl x"
proof (cases "x = 0")
  case True
  then show ?thesis by (simp add: fl_def)
next
  case False
  assume "0 \<le> x"
  with False have p: "0 < x" by simp
  have "x / 2 ^ 53 \<le> x" using p by (simp add: field_simps)
  then show ?thesis using fl_error [OF p] by linarith
qed

lemma percent_value_error:
  fixes c n :: nat
  assumes "0 < c" "c \<le> n"
  shows "0 \<le> fl (fl (of_nat c / of_nat n) * 100)
    \<and> \<bar>fl (fl (of_nat c / of_nat n) * 100) - 100 * of_nat c / of_nat n\<bar> \<le> 300 / 2 ^ 53"
proof -
  define v :: rat where "v = of_nat c / of_nat n"
  have npos: "0 < n" using assms by simp
  have vpos: "0 < v" using assms npos by (simp add: v_def)
  have v1: "v \<le> 1" using assms npos by (simp add: v_def)
  define q where "q = fl v"
  have eq: "\<bar>q - v\<bar> \<le> v / 2 ^ 53" using fl_error [OF vpos] by (simp add: q_def)
  have vs: "v / 2 ^ 53 \<le> 1 / 2 ^ 53" using v1 by (simp add: divide_right_mono)
  have vh: "v / 2 ^ 53 < v" using vpos by (simp add: field_simps)
  have qpos: "0 < q" using eq vh by linarith
  have s1: "(1::rat) / 2 ^ 53 \<le> 1" by simp
  have q2: "q \<le> 2" using eq vs v1 s1 by linarith
  define y where "y = q * 100"
  have ypos: "0 < y" using qpos by (simp add: y_def)
  define x where "x = fl y"
  have ex: "\<bar>x - y\<bar> \<le> y / 2 ^ 53" using fl_error [OF ypos] by (simp add: x_def)
  have ys: "y / 2 ^ 53 \<le> 200 / 2 ^ 53" using q2 by (simp add: y_def divide_right_mono)
  have "x - 100 * v = (x - y) + 100 * (q - v)"
    by (simp add: y_def)
  then have t: "\<bar>x - 100 * v\<bar> \<le> \<bar>x - y\<bar> + \<bar>100 * (q - v)\<bar>"
    by (simp only: abs_triangle_ineq)
  have am: "\<bar>100 * (q - v)\<bar> = 100 * \<bar>q - v\<bar>"
    by (subst abs_mult) simp
  have "\<bar>x - 100 * v\<bar> \<le> \<bar>x - y\<bar> + 100 * \<bar>q - v\<bar>"
    using t unfolding am .
  also have "\<dots> \<le> 200 / 2 ^ 53 + 100 * (1 / 2 ^ 53)"
    using ex ys eq vs by (intro add_mono mult_left_mono) simp_all
  finally have "\<bar>x - 100 * v\<bar> \<le> 300 / 2 ^ 53" by simp
  moreover have "0 \<le> x" using ypos by (simp add: x_def fl_nonneg)
  ultimately show ?thesis
    by (simp add: x_def y_def q_def v_def)
qed

lemma hundredths_gap:
  fixes c n :: nat and N :: int and x :: rat
  assumes n: "0 < n" "n \<le> 2 ^ 32"
    and x: "\<bar>x - 100 * of_nat c / of_nat n\<bar> \<le> 300 / 2 ^ 53"
    and fl: "of_int N \<le> x * 100 + 1 / 2" "x * 100 + 1 / 2 < of_int N + 1"
  shows "\<bar>of_int N / 100 - 100 * of_nat c / of_nat n\<bar> \<le> (1 / 200 :: rat)"
proof -
  define D :: rat where "D = 2 * of_nat n"
  define W :: rat where "W = 10000 * of_nat c / of_nat n"
  have Dpos: "0 < D" using n by (simp add: D_def)
  have D33: "D \<le> 2 ^ 33"
  proof -
    have "(of_nat n :: rat) \<le> of_nat (2 ^ 32)" using n(2) by (simp only: of_nat_le_iff)
    then show ?thesis by (simp add: D_def)
  qed
  have WD: "W * D = of_int (20000 * int c)"
    using n by (simp add: W_def D_def)
  have close: "\<bar>x * 100 - W\<bar> \<le> 30000 / 2 ^ 53"
  proof -
    define T :: rat where "T = 100 * of_nat c / of_nat n"
    have "x * 100 - W = 100 * (x - T)"
      by (simp add: W_def T_def algebra_simps)
    then have "\<bar>x * 100 - W\<bar> = \<bar>100 * (x - T)\<bar>"
      by (simp only:)
    also have "\<dots> = 100 * \<bar>x - T\<bar>"
      by (subst abs_mult) simp
    also have "\<dots> \<le> 100 * (300 / 2 ^ 53)"
      using x unfolding T_def by (intro mult_left_mono) simp_all
    finally show ?thesis by simp
  qed
  have small: "(30000 :: rat) / 2 ^ 53 < 1 / 2 ^ 33" by simp
  have invD: "1 / 2 ^ 33 \<le> 1 / D"
    using Dpos D33 by (simp add: field_simps)
  have step: "a < b \<Longrightarrow> of_int a + 1 \<le> (of_int b :: rat)" for a b :: int
  proof -
    assume "a < b"
    then have "a + 1 \<le> b" by simp
    then have "(of_int (a + 1) :: rat) \<le> of_int b" by (simp only: of_int_le_iff)
    then show ?thesis by simp
  qed
  have hi: "W \<le> of_int N + 1 / 2"
  proof (rule ccontr)
    assume "\<not> W \<le> of_int N + 1 / 2"
    then have "(of_int N + 1 / 2) * D < W * D"
      using Dpos by (simp add: mult_strict_right_mono)
    moreover have L: "(of_int N + 1 / 2) * D = of_int ((2 * N + 1) * int n)"
      by (simp add: D_def algebra_simps)
    ultimately have "(of_int ((2 * N + 1) * int n) :: rat) < of_int (20000 * int c)"
      by (simp only: WD)
    then have "(2 * N + 1) * int n < 20000 * int c"
      by (simp only: of_int_less_iff)
    then have "(of_int ((2 * N + 1) * int n) :: rat) + 1 \<le> of_int (20000 * int c)"
      by (rule step)
    then have "(of_int N + 1 / 2) * D + 1 \<le> W * D"
      unfolding L WD .
    then have "of_int N + 1 / 2 + 1 / D \<le> W"
      using Dpos by (simp add: field_simps)
    moreover have "W < of_int N + 1 / 2 + 30000 / 2 ^ 53"
      using close fl(2) by linarith
    ultimately have "1 / D < 30000 / 2 ^ 53" by linarith
    with small invD show False by linarith
  qed
  have lo: "of_int N - 1 / 2 \<le> W"
  proof (rule ccontr)
    assume "\<not> of_int N - 1 / 2 \<le> W"
    then have "W * D < (of_int N - 1 / 2) * D"
      using Dpos by (simp add: mult_strict_right_mono)
    moreover have L: "(of_int N - 1 / 2) * D = of_int ((2 * N - 1) * int n)"
      by (simp add: D_def algebra_simps)
    ultimately have "(of_int (20000 * int c) :: rat) < of_int ((2 * N - 1) * int n)"
      by (simp only: WD)
    then have "20000 * int c < (2 * N - 1) * int n"
      by (simp only: of_int_less_iff)
    then have "(of_int (20000 * int c) :: rat) + 1 \<le> of_int ((2 * N - 1) * int n)"
      by (rule step)
    then have "W * D + 1 \<le> (of_int N - 1 / 2) * D"
      unfolding L WD .
    then have "W + 1 / D \<le> of_int N - 1 / 2"
      using Dpos by (simp add: field_simps)
    moreover have "of_int N - 1 / 2 - 30000 / 2 ^ 53 \<le> W"
      using close fl(1) by linarith
    ultimately have "1 / D \<le> 30000 / 2 ^ 53" by linarith
    with small invD show False by linarith
  qed
  have h: "\<bar>of_int N - W\<bar> \<le> 1 / 2"
    using hi lo by linarith
  have "of_int N / 100 - 100 * of_nat c / of_nat n = (of_int N - W) / 100"
    by (simp add: W_def field_simps)
  then have "\<bar>of_int N / 100 - 100 * of_nat c / of_nat n\<bar> = \<bar>of_int N - W\<bar> / 100"
    by (simp only: abs_divide abs_numeral)
  also have "\<dots> \<le> (1 / 2) / 100"
    using h by (intro divide_right_mono) simp_all
  finally show ?thesis by simp
qed

lemma percentage_within_half_hundredth:
  fixes c n :: nat
  assumes "0 < c" "c \<le> n" "n \<le> 2 ^ 32"
  shows "\<bar>decimal_value (percent_text (of_nat c) (of_nat n) 2) - 100 * of_nat c / of_nat n\<bar>
           \<le> 1 / 200"
proof -
  define x where "x = fl (fl (of_nat c / of_nat n) * 100)"
  have npos: "0 < n" using assms by simp
  have xe: "0 \<le> x \<and> \<bar>x - 100 * of_nat c / of_nat n\<bar> \<le> 300 / 2 ^ 53"
    using percent_value_error [OF assms(1,2)] by (simp add: x_def)
  have pt: "percent_text (of_nat c) (of_nat n) 2 = toFixed x 2"
    using npos by (simp add: percent_text_def js_div_def js_mul_def x_def)
  have dv: "decimal_value (toFixed x 2) = of_int (toFixed_int x 2) / 100"
    using xe by (simp add: toFixed_2_value)
  have N: "toFixed_int x 2 = \<lfloor>x * 100 + 1 / 2\<rfloor>"
    using xe by (simp add: toFixed_int_def abs_of_nonneg)
  have f1: "of_int (toFixed_int x 2) \<le> x * 100 + 1 / 2"
    unfolding N by (rule of_int_floor_le)
  have f2: "x * 100 + 1 / 2 < of_int (toFixed_int x 2) + 1"
    unfolding N using floor_correct [of "x * 100 + 1 / 2"] by simp
  show ?thesis
    unfolding pt dv
    using hundredths_gap [OF npos assms(3) conjunct2 [OF xe] f1 f2] .
qed

section \<open>Submitting a vote\<close>

lemma varchar255_short: "length s \<le> 255 \<Longrightarrow> varchar255 s = Some s"
  by (simp add: varchar255_def)

text \<open>
  C1, as amended. A submitted value equal to a configured option and at most 255
  characters long, sent over a healthy link while the id sequence has an unused value
  left, is stored in exactly one new row that carries the option; the table grows by one
  row, the option's count by one, and the answer is the redirect to \<^verbatim>\<open>/?success=1\<close>.
\<close>

theorem valid_vote_inserted:
  assumes "js_prop (body req) ''option'' = JStr opt"
    and "opt = OPTION_A (load_config env) \<or> opt = OPTION_B (load_config env)"
    and "length opt \<le> 255"
    and "votes_id_seq (store w) \<le> 2147483647"
    and "word_of_int (votes_id_seq (store w)) \<notin> set (map vote_id (votes (store w)))"
  shows "fst (post_vote (load_config env) Up now req w) = Redirect ''/?success=1''
    \<and> votes (store (snd (post_vote (load_config env) Up now req w)))
        = votes (store w)
          @ [\<lparr>vote_id = word_of_int (votes_id_seq (store w)), vote_option = opt, voted_at = now\<rparr>]
    \<and> length (votes (store (snd (post_vote (load_config env) Up now req w))))
        = length (votes (store w)) + 1
    \<and> count_option opt (store (snd (post_vote (load_config env) Up now req w)))
        = count_option opt (store w) + 1"
proof -
  have ne: "opt \<noteq> []"
    using assms(2) load_config_nonempty [of env] by auto
  have ins: "sql_insert_vote opt now (store w)
      = (Inr (), (store w)\<lparr>votes_id_seq := votes_id_seq (store w) + 1,
           votes := votes (store w)
             @ [\<lparr>vote_id = word_of_int (votes_id_seq (store w)), vote_option = opt, voted_at = now\<rparr>]\<rparr>)"
    using assms(3,4,5) by (simp add: sql_insert_vote_def Let_def varchar255_short)
  have pv: "post_vote (load_config env) Up now req w
      = (Redirect ''/?success=1'', w\<lparr>store := snd (sql_insert_vote opt now (store w))\<rparr>)"
    using assms(1,2) ne by (auto simp add: post_vote_def Let_def pool_query_Up ins)
  show ?thesis
    by (simp add: pv ins count_option_def)
qed

theorem valid_vote_inserted_witness:
  "fst (post_vote (load_config Map.empty) Up 7 (vote_request ''cats'') initial_world)
     = Redirect ''/?success=1''
   \<and> votes (store (snd (post_vote (load_config Map.empty) Up 7 (vote_request ''cats'') initial_world)))
     = [\<lparr>vote_id = 1, vote_option = ''cats'', voted_at = 7\<rparr>]
   \<and> count_option ''cats''
        (store (snd (post_vote (load_config Map.empty) Up 7 (vote_request ''cats'') initial_world)))
     = 1"
proof -
  have a: "js_prop (body (vote_request ''cats'')) ''option'' = JStr ''cats''"
    by (simp add: js_prop_def vote_request_def)
  have b: "''cats'' = OPTION_A (load_config Map.empty) \<or> ''cats'' = OPTION_B (load_config Map.empty)"
    by (simp add: load_config_def env_or_def)
  have c: "length ''cats'' \<le> 255"
    by simp
  have d: "votes_id_seq (store initial_world) \<le> 2147483647"
    by (simp add: initial_world_def empty_database_def)
  have e: "word_of_int (votes_id_seq (store initial_world))
             \<notin> set (map vote_id (votes (store initial_world)))"
    by (simp add: initial_world_def empty_database_def)
  show ?thesis
    using valid_vote_inserted [OF a b c d e, of 7]
    by (simp add: initial_world_def empty_database_def count_option_def)
qed

text \<open>
  C1 as stated fails: with \<^verbatim>\<open>OPTION_A\<close> configured as a string of 256 letters, a
  submission of exactly that value over a healthy link passes the check of the handler,
  is refused by the \<^verbatim>\<open>VARCHAR(255)\<close> column, and is answered with status 500; no row
  is stored.
\<close>

theorem long_option_not_inserted:
  "OPTION_A (load_config [''OPTION_A'' \<mapsto> replicate 256 (CHR ''a'')]) = replicate 256 (CHR ''a'')
   \<and> fst (post_vote (load_config [''OPTION_A'' \<mapsto> replicate 256 (CHR ''a'')]) Up 7
            (vote_request (replicate 256 (CHR ''a''))) initial_world)
       = Text 500 ''Error saving vote''
   \<and> votes (store (snd (post_vote (load_config [''OPTION_A'' \<mapsto> replicate 256 (CHR ''a'')]) Up 7
            (vote_request (replicate 256 (CHR ''a''))) initial_world)))
       = []"
  by code_simp

text \<open>
  C2. A submitted value that differs from both configured options, an empty or a missing
  one included, is answered with status 400 and the text \<^verbatim>\<open>Invalid option\<close>; nothing
  is written: the table, the sequence and the pools are as before.
\<close>

theorem invalid_vote_rejected:
  assumes "js_prop (body req) ''option'' \<noteq> JStr (OPTION_A cfg)"
    and "js_prop (body req) ''option'' \<noteq> JStr (OPTION_B cfg)"
  shows "post_vote cfg l now req w = (Text 400 ''Invalid option'', w)"
  using assms by (simp add: post_vote_def Let_def)

theorem invalid_vote_rejected_witness:
  "js_prop (body plain_request) ''option'' = JUndefined
   \<and> post_vote (load_config Map.empty) Up 0 plain_request initial_world
       = (Text 400 ''Invalid option'', initial_world)
   \<and> post_vote (load_config Map.empty) Up 0 (vote_request []) initial_world
       = (Text 400 ''Invalid option'', initial_world)
   \<and> post_vote (load_config Map.empty) Up 0 (vote_request ''Cats'') initial_world
       = (Text 400 ''Invalid option'', initial_world)"
proof -
  have u: "js_prop (body plain_request) ''option'' = JUndefined"
    by (simp add: js_prop_def plain_request_def)
  have s: "js_prop (body (vote_request v)) ''option'' = JStr v" for v
    by (simp add: js_prop_def vote_request_def)
  have c: "OPTION_A (load_config Map.empty) = ''cats''" "OPTION_B (load_config Map.empty) = ''dogs''"
    by (simp_all add: load_config_def env_or_def)
  have missing: "post_vote (load_config Map.empty) Up 0 plain_request initial_world
       = (Text 400 ''Invalid option'', initial_world)"
    by (rule invalid_vote_rejected) (simp_all add: u)
  have empty: "post_vote (load_config Map.empty) Up 0 (vote_request []) initial_world
       = (Text 400 ''Invalid option'', initial_world)"
    by (rule invalid_vote_rejected) (simp_all add: s c)
  have other: "post_vote (load_config Map.empty) Up 0 (vote_request ''Cats'') initial_world
       = (Text 400 ''Invalid option'', initial_world)"
    by (rule invalid_vote_rejected) (simp_all add: s c)
  show ?thesis
    using u missing empty other by simp
qed

text \<open>
  C9. Were one of the two configured options the empty string, a submission of the
  empty string would still be answered with status 400 and store nothing: \<^verbatim>\<open>!option\<close>
  is tested before the comparison with the options. (By \<open>load_config_nonempty\<close> the
  configuration read from the environment never holds an empty option.)
\<close>

theorem empty_option_rejected:
  assumes "OPTION_A cfg = [] \<or> OPTION_B cfg = []"
    and "js_prop (body req) ''option'' = JStr []"
  shows "post_vote cfg l now req w = (Text 400 ''Invalid option'', w)"
  using assms by (simp add: post_vote_def Let_def)

theorem empty_option_rejected_witness:
  "post_vote \<lparr>OPTION_A = [], OPTION_B = ''dogs''\<rparr> Up 0 (vote_request []) initial_world
     = (Text 400 ''Invalid option'', initial_world)"
proof -
  have a: "OPTION_A \<lparr>OPTION_A = [], OPTION_B = ''dogs''\<rparr> = []
           \<or> OPTION_B \<lparr>OPTION_A = [], OPTION_B = ''dogs''\<rparr> = []"
    by simp
  have b: "js_prop (body (vote_request [])) ''option'' = JStr []"
    by (simp add: js_prop_def vote_request_def)
  show ?thesis
    using empty_option_rejected [OF a b] by simp
qed

section \<open>Deleting all votes\<close>

lemma sql_by_option_empty: "votes d = [] \<Longrightarrow> sql_count_by_option d = (Inr [], d)"
  by (simp add: sql_count_by_option_def grouped_rows_def group_counts_def)

text \<open>
  C5. Over a healthy link, \<^verbatim>\<open>POST /delete-all\<close> answers with the redirect to
  \<^verbatim>\<open>/?deleted=1\<close> and leaves no row in the table, whatever the table held; the
  results page read next shows total 0 and the empty-state block, and the results API
  answers \<^verbatim>\<open>{total: 0, results: []}\<close>.
\<close>

theorem delete_all_clears:
  "fst (post_delete_all Up w) = Redirect ''/?deleted=1''
   \<and> votes (store (snd (post_delete_all Up w))) = []
   \<and> get_results Up req (snd (post_delete_all Up w))
       = (Html \<lparr>page_total = 0,
                 page_deleted_banner = truthy (js_prop (query req) ''deleted''),
                 page_results = EmptyState\<rparr>,
          snd (post_delete_all Up w))
   \<and> api_results Up (snd (post_delete_all Up w))
       = (Json 200 (JObj [(''total'', JNum 0), (''results'', JArr [])]), snd (post_delete_all Up w))"
proof -
  define w' where "w' = w\<lparr>store := (store w)\<lparr>votes := []\<rparr>\<rparr>"
  have del: "post_delete_all Up w = (Redirect ''/?deleted=1'', w')"
    by (simp add: post_delete_all_def pool_query_Up sql_delete_all_def w'_def)
  have e: "votes (store w') = []"
    by (simp add: w'_def)
  have q1: "pool_query Results Up sql_count_by_option w' = (Inr [], w')"
    by (simp add: pool_query_Up sql_by_option_empty [OF e])
  have q2: "pool_query Results Up sql_count_total w' = (Inr 0, w')"
    by (simp add: pool_query_Up sql_count_total_def e)
  have g: "get_results Up req w'
       = (Html \<lparr>page_total = 0,
                 page_deleted_banner = truthy (js_prop (query req) ''deleted''),
                 page_results = EmptyState\<rparr>, w')"
    by (simp add: get_results_def q1 q2 parseInt_zero Let_def)
  have a: "api_results Up w' = (Json 200 (JObj [(''total'', JNum 0), (''results'', JArr [])]), w')"
    by (simp add: api_results_def q1 q2 parseInt_zero Let_def)
  show ?thesis
    by (simp add: del e g a)
qed

section \<open>The liveness check\<close>

lemma healthz_Up:
  "healthz svc Up w = (Json 200 (health_body ''healthy'' (service_name svc) ''connected''), w)"
proof -
  have "client_release svc (set_in_use svc (Suc (in_use svc w)) w) = w"
    using release_after_connect [of svc w "store w"] by simp
  moreover have "set_in_use svc n w\<lparr>store := store (set_in_use svc n w)\<rparr> = set_in_use svc n w" for n
    by simp
  ultimately show ?thesis
    by (simp add: healthz_def pool_connect_def client_query_def sql_select_1_def)
qed

lemma healthz_Refused:
  "healthz svc Refused w
     = (Json 503 (health_body ''unhealthy'' (service_name svc) ''disconnected''), w)"
  by (simp add: healthz_def pool_connect_def)

lemma healthz_Broken:
  "healthz svc Broken w
     = (Json 503 (health_body ''unhealthy'' (service_name svc) ''disconnected''),
        set_in_use svc (Suc (in_use svc w)) w)"
  by (simp add: healthz_def pool_connect_def client_query_def)

text \<open>
  C7 holds for the answers (\<open>healthz_Up\<close>, \<open>healthz_Refused\<close>, \<open>healthz_Broken\<close>:
  200 and healthy exactly over a healthy link, 503 and unhealthy otherwise) and for the
  table, which no path touches. It fails for the pool: when a client is handed out and
  \<^verbatim>\<open>SELECT 1\<close> then throws, either service answers 503 and is left with one more
  client checked out than before.
\<close>

theorem healthz_leaks_client:
  "healthz Vote Broken initial_world
     = (Json 503 (JObj [(''status'', JStr ''unhealthy''), (''service'', JStr ''vote''),
                        (''database'', JStr ''disconnected'')]),
        initial_world\<lparr>vote_in_use := 1\<rparr>)
   \<and> healthz Results Broken initial_world
     = (Json 503 (JObj [(''status'', JStr ''unhealthy''), (''service'', JStr ''results''),
                        (''database'', JStr ''disconnected'')]),
        initial_world\<lparr>results_in_use := 1\<rparr>)"
  by (simp add: healthz_Broken health_body_def service_name_def set_in_use_def in_use_def
      initial_world_def)

section \<open>The results API on every table\<close>

lemma three_votes_table_ok: "table_ok (store three_votes)"
  by code_simp

lemma three_votes_nonempty: "votes (store three_votes) \<noteq> []"
  by code_simp

lemma api_results_Up:
  "api_results Up w
     = (Json 200 (JObj [(''total'', JNum (parseInt (length (votes (store w))))),
                        (''results'',
                         JArr (map (api_entry (parseInt (length (votes (store w)))))
                                   (grouped_rows (store w))))]),
        w)"
  by (simp add: api_results_def pool_query_Up sql_count_by_option_def sql_count_total_def Let_def)

lemma count_option_le: "count_option opt d \<le> length (votes d)"
  by (simp add: count_option_def)

lemma parseInt_rows:
  assumes "table_ok d"
  shows "parseInt (length (votes d)) = of_nat (length (votes d))"
    and "row \<in> set (grouped_rows d) \<Longrightarrow> parseInt (snd row) = of_nat (snd row)"
proof -
  have b: "length (votes d) \<le> 2 ^ 32"
    using assms by (rule table_rows_bound)
  have lt: "(2::nat) ^ 32 < 2 ^ 53" by simp
  show "parseInt (length (votes d)) = of_nat (length (votes d))"
    using b lt by (intro parseInt_exact) linarith
  assume "row \<in> set (grouped_rows d)"
  then have "snd row \<le> length (votes d)"
    using grouped_rows_row [of row d] count_option_le [of "fst row" d] by simp
  then show "parseInt (snd row) = of_nat (snd row)"
    using b lt by (intro parseInt_exact) linarith
qed

lemma entry_fields:
  "entry_option (api_entry t row) = fst row"
  "entry_count (api_entry t row) = parseInt (snd row)"
  "0 < t \<Longrightarrow> entry_percentage (api_entry t row) = decimal_value (percent_text (parseInt (snd row)) t 2)"
  by (simp_all add: entry_option_def entry_count_def entry_percentage_def api_entry_def
      json_field_def json_number_def json_string_def js_prop_def)

lemma sum_list_of_nat: "(\<Sum>x\<leftarrow>xs. (of_nat (f x) :: rat)) = of_nat (\<Sum>x\<leftarrow>xs. f x)"
  by (induction xs) simp_all

lemma distinct_map_insort_key:
  "distinct (map g (insort_key f a xs)) \<longleftrightarrow> g a \<notin> g ` set xs \<and> distinct (map g xs)"
  by (induction xs) (auto simp add: set_insort_key)

lemma distinct_map_sort_key:
  "distinct (map g (sort_key f xs)) \<longleftrightarrow> distinct (map g xs)"
  by (induction xs) (simp_all add: distinct_map_insort_key)

text \<open>
  C10. Read over a healthy link from a table whose ids are distinct, the counts of the
  entries of the results API add up to the total of the response, which is the number of
  rows; every entry has a count of at least 1, which is the number of stored rows with
  the entry's option; so an option without a stored vote has no entry, and no option has
  two entries.
\<close>

theorem api_counts_consistent:
  assumes "table_ok (store w)"
  shows "\<exists>es. api_results Up w
             = (Json 200 (JObj [(''total'', JNum (of_nat (length (votes (store w))))),
                                (''results'', JArr es)]), w)
          \<and> (\<Sum>e\<leftarrow>es. entry_count e) = of_nat (length (votes (store w)))
          \<and> (\<forall>e\<in>set es. 1 \<le> entry_count e
                \<and> entry_count e = of_nat (count_option (entry_option e) (store w))
                \<and> 0 < count_option (entry_option e) (store w))
          \<and> distinct (map entry_option es)"
proof -
  define d where "d = store w"
  define t where "t = parseInt (length (votes d))"
  define es where "es = map (api_entry t) (grouped_rows d)"
  have ok: "table_ok d" using assms by (simp add: d_def)
  have tt: "t = of_nat (length (votes d))"
    using parseInt_rows(1) [OF ok] by (simp add: t_def)
  have r: "api_results Up w
             = (Json 200 (JObj [(''total'', JNum (of_nat (length (votes (store w))))),
                                (''results'', JArr es)]), w)"
    using tt by (simp add: api_results_Up es_def t_def d_def)
  have cnt: "entry_count (api_entry t row) = of_nat (snd row)" if "row \<in> set (grouped_rows d)" for row
    using parseInt_rows(2) [OF ok that] by (simp add: entry_fields)
  have "(\<Sum>e\<leftarrow>es. entry_count e) = (\<Sum>row\<leftarrow>grouped_rows d. of_nat (snd row))"
    unfolding es_def map_map comp_def
    by (intro arg_cong [where f = sum_list] map_cong refl cnt)
  also have "\<dots> = of_nat (\<Sum>row\<leftarrow>grouped_rows d. snd row)"
    by (rule sum_list_of_nat)
  finally have s: "(\<Sum>e\<leftarrow>es. entry_count e) = of_nat (length (votes (store w)))"
    by (simp add: grouped_rows_sum d_def)
  have each: "1 \<le> entry_count e
                \<and> entry_count e = of_nat (count_option (entry_option e) (store w))
                \<and> 0 < count_option (entry_option e) (store w)" if "e \<in> set es" for e
  proof -
    from that obtain row where row: "row \<in> set (grouped_rows d)" and e: "e = api_entry t row"
      by (auto simp add: es_def)
    have g: "snd row = count_option (fst row) d \<and> 1 \<le> snd row"
      using grouped_rows_row [OF row] by simp
    then have one: "(1::rat) \<le> of_nat (snd row)"
      by (metis of_nat_1 of_nat_le_iff)
    have c1: "entry_count e = of_nat (snd row)"
      by (simp only: e cnt [OF row])
    have o1: "entry_option e = fst row"
      by (simp only: e entry_fields(1))
    have pos: "0 < count_option (fst row) d"
      using g by simp
    show ?thesis
      unfolding c1 o1 d_def [symmetric] using one pos g by simp
  qed
  have dist: "distinct (map entry_option es)"
  proof -
    have "map entry_option es = map fst (grouped_rows d)"
      by (simp add: es_def comp_def entry_fields)
    then show ?thesis
      by (simp add: grouped_rows_def group_counts_distinct distinct_map_sort_key)
  qed
  show ?thesis
    using r s each dist by blast
qed

theorem api_counts_consistent_witness:
  "table_ok (store three_votes)
   \<and> (\<exists>es. api_results Up three_votes
             = (Json 200 (JObj [(''total'', JNum (of_nat (length (votes (store three_votes))))),
                                (''results'', JArr es)]), three_votes)
          \<and> (\<Sum>e\<leftarrow>es. entry_count e) = of_nat (length (votes (store three_votes)))
          \<and> (\<forall>e\<in>set es. 1 \<le> entry_count e
                \<and> entry_count e = of_nat (count_option (entry_option e) (store three_votes))
                \<and> 0 < count_option (entry_option e) (store three_votes))
          \<and> distinct (map entry_option es))"
  using three_votes_table_ok api_counts_consistent [OF three_votes_table_ok]
  by (rule conjI)

lemma sum_list_close:
  assumes "\<And>x. x \<in> set xs \<Longrightarrow> \<bar>f x - g x\<bar> \<le> (b::rat)"
  shows "\<bar>(\<Sum>x\<leftarrow>xs. f x) - (\<Sum>x\<leftarrow>xs. g x)\<bar> \<le> of_nat (length xs) * b"
  using assms
proof (induction xs)
  case Nil
  then show ?case by simp
next
  case (Cons a xs)
  have h: "\<bar>f a - g a\<bar> \<le> b"
    using Cons.prems by simp
  have t: "\<bar>(\<Sum>x\<leftarrow>xs. f x) - (\<Sum>x\<leftarrow>xs. g x)\<bar> \<le> of_nat (length xs) * b"
    using Cons.IH Cons.prems by simp
  have "\<bar>(\<Sum>x\<leftarrow>a # xs. f x) - (\<Sum>x\<leftarrow>a # xs. g x)\<bar>
          \<le> \<bar>f a - g a\<bar> + \<bar>(\<Sum>x\<leftarrow>xs. f x) - (\<Sum>x\<leftarrow>xs. g x)\<bar>"
    by simp
  also have "\<dots> \<le> b + of_nat (length xs) * b"
    using h t by (rule add_mono)
  finally show ?case
    by (simp add: algebra_simps)
qed

lemma sum_list_shares:
  "(\<Sum>row\<leftarrow>rows. 100 * of_nat (snd row) / (m::rat)) = 100 * of_nat (\<Sum>row\<leftarrow>rows. snd row) / m"
  by (induction rows) (simp_all add: add_divide_distrib distrib_left)

text \<open>
  C4. Read over a healthy link from a table whose ids are distinct: when the table is
  empty the response is \<^verbatim>\<open>{total: 0, results: []}\<close>; otherwise the percentages of the
  entries, read as decimal numbers, add up to 100 within half a hundredth per entry,
  the error that rounding each of them to two decimals can introduce.
\<close>

theorem api_percentages_sum:
  assumes "table_ok (store w)"
  shows "(votes (store w) = [] \<longrightarrow>
           api_results Up w = (Json 200 (JObj [(''total'', JNum 0), (''results'', JArr [])]), w))
       \<and> (votes (store w) \<noteq> [] \<longrightarrow>
           (\<exists>es. api_results Up w
                   = (Json 200 (JObj [(''total'', JNum (of_nat (length (votes (store w))))),
                                      (''results'', JArr es)]), w)
               \<and> \<bar>(\<Sum>e\<leftarrow>es. entry_percentage e) - 100\<bar> \<le> of_nat (length es) / 200))"
proof (intro conjI impI)
  assume "votes (store w) = []"
  then show "api_results Up w = (Json 200 (JObj [(''total'', JNum 0), (''results'', JArr [])]), w)"
    by (simp add: api_results_Up parseInt_zero grouped_rows_def group_counts_def)
next
  assume ne: "votes (store w) \<noteq> []"
  define d where "d = store w"
  define n where "n = length (votes d)"
  define t where "t = parseInt n"
  define es where "es = map (api_entry t) (grouped_rows d)"
  have ok: "table_ok d" using assms by (simp add: d_def)
  have npos: "0 < n" using ne by (simp add: n_def d_def)
  have nb: "n \<le> 2 ^ 32" using table_rows_bound [OF ok] by (simp add: n_def)
  have tt: "t = of_nat n"
    using parseInt_rows(1) [OF ok] by (simp add: t_def n_def)
  have tpos: "0 < t" using npos by (simp add: tt)
  have r: "api_results Up w
             = (Json 200 (JObj [(''total'', JNum (of_nat (length (votes (store w))))),
                                (''results'', JArr es)]), w)"
    using tt by (simp add: api_results_Up es_def t_def n_def d_def)
  have each: "\<bar>entry_percentage (api_entry t row) - 100 * of_nat (snd row) / of_nat n\<bar> \<le> 1 / 200"
    if row: "row \<in> set (grouped_rows d)" for row
  proof -
    have g: "snd row = count_option (fst row) d \<and> 1 \<le> snd row"
      using grouped_rows_row [OF row] by simp
    then have c1: "0 < snd row" by simp
    have c2: "snd row \<le> n"
      using g count_option_le [of "fst row" d] by (simp add: n_def)
    have "entry_percentage (api_entry t row) = decimal_value (percent_text (of_nat (snd row)) (of_nat n) 2)"
      using tpos by (simp add: entry_fields(3) parseInt_rows(2) [OF ok row] tt)
    then show ?thesis
      using percentage_within_half_hundredth [OF c1 c2 nb] by simp
  qed
  have "\<bar>(\<Sum>row\<leftarrow>grouped_rows d. entry_percentage (api_entry t row))
          - (\<Sum>row\<leftarrow>grouped_rows d. 100 * of_nat (snd row) / of_nat n)\<bar>
        \<le> of_nat (length (grouped_rows d)) * (1 / 200)"
    by (rule sum_list_close) (rule each)
  moreover have "(\<Sum>row\<leftarrow>grouped_rows d. 100 * of_nat (snd row) / (of_nat n :: rat)) = 100"
    using npos by (simp add: sum_list_shares grouped_rows_sum n_def)
  moreover have "(\<Sum>e\<leftarrow>es. entry_percentage e)
                   = (\<Sum>row\<leftarrow>grouped_rows d. entry_percentage (api_entry t row))"
    by (simp add: es_def comp_def)
  moreover have "length es = length (grouped_rows d)"
    by (simp add: es_def)
  ultimately have "\<bar>(\<Sum>e\<leftarrow>es. entry_percentage e) - 100\<bar> \<le> of_nat (length es) / 200"
    by simp
  with r show "\<exists>es. api_results Up w
                   = (Json 200 (JObj [(''total'', JNum (of_nat (length (votes (store w))))),
                                      (''results'', JArr es)]), w)
               \<and> \<bar>(\<Sum>e\<leftarrow>es. entry_percentage e) - 100\<bar> \<le> of_nat (length es) / 200"
    by blast
qed

theorem api_percentages_sum_witness:
  "table_ok (store three_votes)
   \<and> votes (store three_votes) \<noteq> []
   \<and> (\<exists>es. api_results Up three_votes
             = (Json 200 (JObj [(''total'', JNum (of_nat (length (votes (store three_votes))))),
                                (''results'', JArr es)]), three_votes)
          \<and> \<bar>(\<Sum>e\<leftarrow>es. entry_percentage e) - 100\<bar> \<le> of_nat (length es) / 200)"
  using three_votes_table_ok three_votes_nonempty
    api_percentages_sum [OF three_votes_table_ok]
  by blast

section \<open>The results API on three votes\<close>

lemma grouped_rows_by_options: "grouped_rows d = rows_of_options (map vote_option (votes d))"
  by (simp add: grouped_rows_def group_counts_def rows_of_options_def count_option_as_filter)

lemma cats_cats_dogs_orders:
  assumes "length xs = 3"
    and "length (filter (\<lambda>x. x = ''cats'') xs) = 2"
    and "length (filter (\<lambda>x. x = ''dogs'') xs) = 1"
  shows "xs = [''cats'', ''cats'', ''dogs''] \<or> xs = [''cats'', ''dogs'', ''cats'']
         \<or> xs = [''dogs'', ''cats'', ''cats'']"
proof -
  from assms(1) obtain a b c where xs: "xs = [a, b, c]"
    by (auto simp add: numeral_3_eq_3 length_Suc_conv)
  show ?thesis
    using assms(2,3) unfolding xs by (auto split: if_splits)
qed

lemma rows_cats_cats_dogs:
  "rows_of_options [''cats'', ''cats'', ''dogs''] = [(''cats'', 2), (''dogs'', 1)]"
  "rows_of_options [''cats'', ''dogs'', ''cats''] = [(''cats'', 2), (''dogs'', 1)]"
  "rows_of_options [''dogs'', ''cats'', ''cats''] = [(''cats'', 2), (''dogs'', 1)]"
  by code_simp+

lemma entries_cats_dogs:
  "parseInt 3 = 3"
  "map (api_entry 3) [(''cats'', 2), (''dogs'', 1)]
     = [JObj [(''option'', JStr ''cats''), (''count'', JNum 2), (''percentage'', JStr ''66.67'')],
        JObj [(''option'', JStr ''dogs''), (''count'', JNum 1), (''percentage'', JStr ''33.33'')]]"
  by code_simp+

text \<open>
  C3. Over a healthy link, for every table that holds exactly three votes, two for
  \<^verbatim>\<open>cats\<close> and one for \<^verbatim>\<open>dogs\<close>, in whatever order and with whatever ids they were
  stored, the results API answers with total 3 and the entries cats (count 2, percentage
  \<^verbatim>\<open>"66.67"\<close>) and dogs (count 1, percentage \<^verbatim>\<open>"33.33"\<close>), cats first: the entries
  are in descending order of count and the percentages are strings with two decimals.
\<close>

theorem three_votes_api:
  assumes "length (votes (store w)) = 3"
    and "count_option ''cats'' (store w) = 2"
    and "count_option ''dogs'' (store w) = 1"
  shows "api_results Up w
     = (Json 200
          (JObj [(''total'', JNum 3),
                 (''results'',
                  JArr [JObj [(''option'', JStr ''cats''), (''count'', JNum 2),
                              (''percentage'', JStr ''66.67'')],
                        JObj [(''option'', JStr ''dogs''), (''count'', JNum 1),
                              (''percentage'', JStr ''33.33'')]])]),
        w)"
proof -
  define opts where "opts = map vote_option (votes (store w))"
  have "length opts = 3"
    using assms(1) by (simp add: opts_def)
  moreover have "length (filter (\<lambda>x. x = ''cats'') opts) = 2"
    using assms(2) by (simp add: opts_def count_option_as_filter)
  moreover have "length (filter (\<lambda>x. x = ''dogs'') opts) = 1"
    using assms(3) by (simp add: opts_def count_option_as_filter)
  ultimately have "opts = [''cats'', ''cats'', ''dogs''] \<or> opts = [''cats'', ''dogs'', ''cats'']
         \<or> opts = [''dogs'', ''cats'', ''cats'']"
    by (rule cats_cats_dogs_orders)
  then have "rows_of_options opts = [(''cats'', 2), (''dogs'', 1)]"
    using rows_cats_cats_dogs by auto
  then have rows: "grouped_rows (store w) = [(''cats'', 2), (''dogs'', 1)]"
    by (simp only: grouped_rows_by_options opts_def)
  show ?thesis
    unfolding api_results_Up rows assms(1) entries_cats_dogs ..
qed

lemma dogs_first_table:
  "length (votes (store (cast_votes (load_config Map.empty) [''dogs'', ''cats'', ''cats''] initial_world))) = 3"
  "count_option ''cats'' (store (cast_votes (load_config Map.empty) [''dogs'', ''cats'', ''cats''] initial_world)) = 2"
  "count_option ''dogs'' (store (cast_votes (load_config Map.empty) [''dogs'', ''cats'', ''cats''] initial_world)) = 1"
  "map vote_option (votes (store (cast_votes (load_config Map.empty) [''dogs'', ''cats'', ''cats''] initial_world)))
     = [''dogs'', ''cats'', ''cats'']"
  by code_simp+

lemma cats_first_table:
  "length (votes (store three_votes)) = 3"
  "count_option ''cats'' (store three_votes) = 2"
  "count_option ''dogs'' (store three_votes) = 1"
  "map vote_option (votes (store three_votes)) = [''cats'', ''cats'', ''dogs'']"
  by code_simp+

theorem three_votes_api_witness:
  "map vote_option (votes (store three_votes)) = [''cats'', ''cats'', ''dogs'']
   \<and> api_results Up three_votes
     = (Json 200
          (JObj [(''total'', JNum 3),
                 (''results'',
                  JArr [JObj [(''option'', JStr ''cats''), (''count'', JNum 2),
                              (''percentage'', JStr ''66.67'')],
                        JObj [(''option'', JStr ''dogs''), (''count'', JNum 1),
                              (''percentage'', JStr ''33.33'')]])]),
        three_votes)
   \<and> map vote_option
         (votes (store (cast_votes (load_config Map.empty) [''dogs'', ''cats'', ''cats''] initial_world)))
       = [''dogs'', ''cats'', ''cats'']
   \<and> api_results Up (cast_votes (load_config Map.empty) [''dogs'', ''cats'', ''cats''] initial_world)
     = (Json 200
          (JObj [(''total'', JNum 3),
                 (''results'',
                  JArr [JObj [(''option'', JStr ''cats''), (''count'', JNum 2),
                              (''percentage'', JStr ''66.67'')],
                        JObj [(''option'', JStr ''dogs''), (''count'', JNum 1),
                              (''percentage'', JStr ''33.33'')]])]),
        cast_votes (load_config Map.empty) [''dogs'', ''cats'', ''cats''] initial_world)"
  using cats_first_table(4) three_votes_api [OF cats_first_table(1,2,3)]
    dogs_first_table(4) three_votes_api [OF dogs_first_table(1,2,3)]
  by (intro conjI)

section \<open>The results page on every table\<close>

lemma fl_pos: "0 < x \<Longrightarrow> 0 < fl x"
proof -
  assume p: "0 < x"
  have "x / 2 ^ 53 < x" using p by (simp add: field_simps)
  then show ?thesis using fl_error [OF p] by linarith
qed

lemma parseInt_zero_iff: "parseInt n = 0 \<longleftrightarrow> n = 0"
proof
  assume z: "parseInt n = 0"
  show "n = 0"
  proof (rule ccontr)
    assume "n \<noteq> 0"
    then have "(0::rat) < of_nat n" by simp
    then have "0 < fl (of_nat n)" by (rule fl_pos)
    with z show False by (simp add: parseInt_def)
  qed
next
  assume "n = 0"
  then show "parseInt n = 0" by (simp add: parseInt_zero)
qed

lemma foldr_max_Max: "foldr max xs (b::rat) = Max (insert b (set xs))"
proof (induction xs)
  case Nil
  then show ?case by simp
next
  case (Cons x xs)
  have "Max (insert b (set (x # xs))) = Max (insert x (insert b (set xs)))"
    by (simp add: insert_commute)
  also have "\<dots> = max x (Max (insert b (set xs)))"
    by (rule Max_insert) simp_all
  finally show ?case
    using Cons by simp
qed

lemma max_votes_Max: "max_votes obj = Max (insert 1 (snd ` set (own_entries obj)))"
  by (simp add: max_votes_def foldr_max_Max)

lemma max_votes_ge1: "1 \<le> max_votes obj"
  by (simp add: max_votes_Max)

lemma obj_set_subset: "set (obj_set obj k v) \<subseteq> insert (k, v) (set obj)"
  by (auto simp add: obj_set_def)

lemma tally_entries:
  "e \<in> set (tally rows) \<Longrightarrow> \<exists>row\<in>set rows. e = (fst row, parseInt (snd row))"
proof (induction rows arbitrary: e rule: rev_induct)
  case Nil
  then show ?case by (simp add: tally_def)
next
  case (snoc r rows)
  have "tally (rows @ [r]) = obj_set (tally rows) (fst r) (parseInt (snd r))"
    by (simp add: tally_def)
  then have "e \<in> insert (fst r, parseInt (snd r)) (set (tally rows))"
    using snoc.prems obj_set_subset by fastforce
  then show ?case
    using snoc.IH [of e] by auto
qed

lemma own_entries_set: "set (own_entries obj) = set obj"
  by (auto simp add: own_entries_def)

lemma get_results_Up:
  "get_results Up req w
     = (Html \<lparr>page_total = parseInt (length (votes (store w))),
               page_deleted_banner = truthy (js_prop (query req) ''deleted''),
               page_results =
                 (if parseInt (length (votes (store w))) = 0 then EmptyState
                  else ResultItems
                         (map (render_item (parseInt (length (votes (store w))))
                                 (max_votes (tally (grouped_rows (store w)))))
                              (own_entries (tally (grouped_rows (store w))))))\<rparr>,
        w)"
  by (simp add: get_results_def pool_query_Up sql_count_by_option_def sql_count_total_def Let_def)

lemma render_item_fields:
  assumes "0 < t" "D \<noteq> 0"
  shows "item_option (render_item t D e) = fst e"
    and "item_count (render_item t D e) = snd e"
    and "item_bar_width (render_item t D e) = Some (fl (fl (snd e / D) * 100))"
    and "item_percentage (render_item t D e) = JStr (toFixed (fl (fl (snd e / t) * 100)) 1)"
  using assms
  by (simp_all add: render_item_def Let_def js_div_def js_mul_def percent_text_def)

text \<open>
  When no stored option is named \<^verbatim>\<open>__proto__\<close>, the page lists every stored option
  once, with its stored count, and the denominator of the bar widths is the highest
  stored count floored at 1; with \<open>render_item_fields\<close> this gives the bar width
  \<^verbatim>\<open>(count / d) * 100\<close> and the percentage \<^verbatim>\<open>(count / total) * 100\<close>, printed with one
  decimal, of every item, and no division by zero.
\<close>

lemma highest_count_ge1: "1 \<le> highest_count d"
  by (simp add: highest_count_def)

lemma tally_plain:
  assumes "distinct (map fst rows)" and "''__proto__'' \<notin> set (map fst rows)"
  shows "tally rows = map (\<lambda>row. (fst row, parseInt (snd row))) rows"
  using assms
proof (induction rows rule: rev_induct)
  case Nil
  then show ?case by (simp add: tally_def)
next
  case (snoc r rows)
  have ih: "tally rows = map (\<lambda>row. (fst row, parseInt (snd row))) rows"
    using snoc by simp
  have step: "tally (rows @ [r]) = obj_set (tally rows) (fst r) (parseInt (snd r))"
    by (simp add: tally_def)
  have keys: "map fst (tally rows) = map fst rows"
    by (simp add: ih comp_def)
  have fresh: "fst r \<notin> set (map fst (tally rows))"
    using snoc.prems(1) unfolding keys by auto
  have np: "fst r \<noteq> ''__proto__''"
    using snoc.prems(2) by auto
  show ?case
    unfolding step using fresh np by (simp add: obj_set_def ih)
qed

lemma grouped_rows_set:
  "set (grouped_rows d) = (\<lambda>opt. (opt, count_option opt d)) ` set (map vote_option (votes d))"
  by (simp add: grouped_rows_def group_counts_def first_seen_set)

lemma grouped_rows_keys_distinct: "distinct (map fst (grouped_rows d))"
  by (simp add: grouped_rows_def distinct_map_sort_key group_counts_distinct)

lemma Max_of_nat_floor:
  assumes "finite T"
  shows "Max (insert 1 ((of_nat :: nat \<Rightarrow> rat) ` T)) = of_nat (Max (insert 1 T))"
proof -
  have m: "mono (of_nat :: nat \<Rightarrow> rat)"
    by (simp add: mono_def)
  have "(of_nat :: nat \<Rightarrow> rat) (Max (insert 1 T)) = Max (of_nat ` insert 1 T)"
    using assms by (intro mono_Max_commute [OF m]) simp_all
  then show ?thesis by simp
qed

lemma tally_without_proto:
  assumes ok: "table_ok d"
    and np: "''__proto__'' \<notin> set (map vote_option (votes d))"
  shows "tally (grouped_rows d) = map (\<lambda>row. (fst row, of_nat (snd row))) (grouped_rows d)"
proof -
  have "''__proto__'' \<notin> set (map fst (grouped_rows d))"
    using np by (auto simp add: grouped_rows_set)
  then have "tally (grouped_rows d) = map (\<lambda>row. (fst row, parseInt (snd row))) (grouped_rows d)"
    using grouped_rows_keys_distinct by (intro tally_plain) simp_all
  also have "\<dots> = map (\<lambda>row. (fst row, of_nat (snd row))) (grouped_rows d)"
    using parseInt_rows(2) [OF ok] by (intro map_cong refl) simp
  finally show ?thesis .
qed

lemma page_entries_without_proto:
  assumes ok: "table_ok d"
    and np: "''__proto__'' \<notin> set (map vote_option (votes d))"
  shows "set (own_entries (tally (grouped_rows d)))
           = (\<lambda>opt. (opt, of_nat (count_option opt d))) ` set (map vote_option (votes d))"
    and "distinct (map fst (own_entries (tally (grouped_rows d))))"
    and "max_votes (tally (grouped_rows d)) = of_nat (highest_count d)"
proof -
  define obj where "obj = tally (grouped_rows d)"
  have t: "obj = map (\<lambda>row. (fst row, of_nat (snd row))) (grouped_rows d)"
    unfolding obj_def by (rule tally_without_proto [OF ok np])
  have s: "set obj = (\<lambda>opt. (opt, of_nat (count_option opt d))) ` set (map vote_option (votes d))"
    by (auto simp add: t grouped_rows_set image_iff)
  show "set (own_entries (tally (grouped_rows d)))
           = (\<lambda>opt. (opt, of_nat (count_option opt d))) ` set (map vote_option (votes d))"
    using s by (simp add: own_entries_set obj_def)
  have dk: "distinct (map fst obj)"
    using grouped_rows_keys_distinct [of d] by (simp add: t comp_def)
  show "distinct (map fst (own_entries (tally (grouped_rows d))))"
  proof -
    have "distinct (map fst (filter P obj))" for P
      using dk by (simp add: distinct_map_filter)
    moreover have "fst ` set (filter (\<lambda>p. is_array_index (fst p)) obj)
                     \<inter> fst ` set (filter (\<lambda>p. \<not> is_array_index (fst p)) obj) = {}"
      by auto
    ultimately show ?thesis
      by (simp add: own_entries_def obj_def [symmetric] distinct_map_sort_key)
  qed
  have "snd ` set obj = of_nat ` ((\<lambda>opt. count_option opt d) ` set (map vote_option (votes d)))"
    unfolding s by (simp add: image_image)
  then have "max_votes obj
               = Max (insert 1 (of_nat ` ((\<lambda>opt. count_option opt d) ` set (map vote_option (votes d)))))"
    by (simp add: max_votes_Max own_entries_set)
  also have "\<dots> = of_nat (highest_count d)"
    unfolding highest_count_def by (rule Max_of_nat_floor) simp
  finally show "max_votes (tally (grouped_rows d)) = of_nat (highest_count d)"
    by (simp add: obj_def)
qed

lemma page_without_proto:
  assumes ok: "table_ok (store w)"
    and np: "''__proto__'' \<notin> set (map vote_option (votes (store w)))"
  shows "get_results Up req w
     = (Html \<lparr>page_total = of_nat (length (votes (store w))),
               page_deleted_banner = truthy (js_prop (query req) ''deleted''),
               page_results =
                 (if votes (store w) = [] then EmptyState
                  else ResultItems
                         (map (render_item (of_nat (length (votes (store w))))
                                 (of_nat (highest_count (store w))))
                              (own_entries (tally (grouped_rows (store w))))))\<rparr>,
        w)"
  using parseInt_rows(1) [OF ok] page_entries_without_proto(3) [OF ok np]
  by (simp add: get_results_Up)

text \<open>
  C8 fails on the results page for an option named \<^verbatim>\<open>__proto__\<close>. With the options
  \<^verbatim>\<open>__proto__\<close> and \<^verbatim>\<open>dogs\<close> and the votes __proto__, __proto__, dogs, the table
  holds two votes for the one and one for the other, so the highest count of an option
  is 2; the page shows no item for \<^verbatim>\<open>__proto__\<close>, and draws the bar of \<^verbatim>\<open>dogs\<close>
  with width 100, that is with the denominator 1: the assignment to the key
  \<^verbatim>\<open>__proto__\<close> of the tally object creates no property.
\<close>

theorem proto_option_page:
  "count_option ''__proto__''
     (store (cast_votes (load_config [''OPTION_A'' \<mapsto> ''__proto__''])
               [''__proto__'', ''__proto__'', ''dogs''] initial_world)) = 2
   \<and> count_option ''dogs''
     (store (cast_votes (load_config [''OPTION_A'' \<mapsto> ''__proto__''])
               [''__proto__'', ''__proto__'', ''dogs''] initial_world)) = 1
   \<and> get_results Up plain_request
     (cast_votes (load_config [''OPTION_A'' \<mapsto> ''__proto__''])
        [''__proto__'', ''__proto__'', ''dogs''] initial_world)
     = (Html \<lparr>page_total = 3,
               page_deleted_banner = False,
               page_results = ResultItems
                 [\<lparr>item_option = ''dogs'', item_count = 1, item_unit = ''vote'',
                   item_bar_width = Some 100, item_percentage = JStr ''33.3''\<rparr>]\<rparr>,
        cast_votes (load_config [''OPTION_A'' \<mapsto> ''__proto__''])
          [''__proto__'', ''__proto__'', ''dogs''] initial_world)"
  by code_simp

section \<open>The order of the entries\<close>

text \<open>The entries of the results API are in descending order of their counts.\<close>

lemma api_order_descending:
  assumes "table_ok (store w)"
  shows "\<exists>es. api_results Up w
             = (Json 200 (JObj [(''total'', JNum (of_nat (length (votes (store w))))),
                                (''results'', JArr es)]), w)
          \<and> sorted_wrt (\<lambda>a b. entry_count b \<le> entry_count a) es"
proof -
  define d where "d = store w"
  define t where "t = parseInt (length (votes d))"
  define es where "es = map (api_entry t) (grouped_rows d)"
  have ok: "table_ok d" using assms by (simp add: d_def)
  have r: "api_results Up w
             = (Json 200 (JObj [(''total'', JNum (of_nat (length (votes (store w))))),
                                (''results'', JArr es)]), w)"
    using parseInt_rows(1) [OF ok] by (simp add: api_results_Up es_def t_def d_def)
  have "sorted_wrt (\<lambda>r s. entry_count (api_entry t s) \<le> entry_count (api_entry t r)) (grouped_rows d)"
  proof (rule sorted_wrt_mono_rel [OF _ grouped_rows_descending])
    fix r s
    assume "r \<in> set (grouped_rows d)" "s \<in> set (grouped_rows d)" "snd s \<le> snd r"
    then show "entry_count (api_entry t s) \<le> entry_count (api_entry t r)"
      using parseInt_rows(2) [OF ok] by (simp add: entry_fields(2))
  qed
  then have "sorted_wrt (\<lambda>a b. entry_count b \<le> entry_count a) es"
    by (simp add: es_def sorted_wrt_map)
  with r show ?thesis by blast
qed

text \<open>
  C6 fails on the results page. With the options \<^verbatim>\<open>1\<close> and \<^verbatim>\<open>2\<close> and the votes
  2, 2, 1, the query returns option 2 (two votes) before option 1 (one vote), but the
  page lists option 1 first: the rows pass through an object, whose integer-like keys
  are enumerated in ascending numeric order.
\<close>

theorem numeric_options_page_order:
  "get_results Up plain_request
     (cast_votes \<lparr>OPTION_A = ''1'', OPTION_B = ''2''\<rparr> [''2'', ''2'', ''1''] initial_world)
     = (Html \<lparr>page_total = 3,
               page_deleted_banner = False,
               page_results = ResultItems
                 [\<lparr>item_option = ''1'', item_count = 1, item_unit = ''vote'',
                   item_bar_width = Some 50, item_percentage = JStr ''33.3''\<rparr>,
                  \<lparr>item_option = ''2'', item_count = 2, item_unit = ''votes'',
                   item_bar_width = Some 100, item_percentage = JStr ''66.7''\<rparr>]\<rparr>,
        cast_votes \<lparr>OPTION_A = ''1'', OPTION_B = ''2''\<rparr> [''2'', ''2'', ''1''] initial_world)"
  by code_simp

end
